theory Spec2Isabelle
  imports Complex_Main "HOL-Library.Sublist" "HOL-Library.Log_Nat"
begin

section \<open>Numbers\<close>

text \<open>
  A JavaScript \<open>number\<close> is either a finite value or one of the three special values;
  finite values are reals, and signed zero is not told apart.  In the descriptive
  statistics and the probability functions sums, products and quotients are taken exactly;
  the source only counts, compares, sorts and combines finite numbers there.  In the
  combinatorics functions, whose source rounds its own result against floating-point
  drift, every arithmetic operation rounds (section \<open>Rounding arithmetic\<close>).
\<close>

datatype jsnum = Fin real | PosInf | NegInf | NaN

text \<open>\<open>Number.isFinite\<close> and \<open>Number.isInteger\<close>.\<close>

fun isFinite :: "jsnum \<Rightarrow> bool" where
  "isFinite (Fin x) = True"
| "isFinite PosInf = False"
| "isFinite NegInf = False"
| "isFinite NaN = False"

fun isInteger :: "jsnum \<Rightarrow> bool" where
  "isInteger (Fin x) = (of_int \<lfloor>x\<rfloor> = x)"
| "isInteger PosInf = False"
| "isInteger NegInf = False"
| "isInteger NaN = False"

section \<open>Descriptive statistics (\<open>utils/statistics.ts\<close>)\<close>

text \<open>\<open>values.reduce((sum, val) => sum + val, 0)\<close>\<close>

definition calculateSum :: "real list \<Rightarrow> real" where
  "calculateSum values = foldl (\<lambda>sum val. sum + val) 0 values"

definition calculateMean :: "real list \<Rightarrow> real" where
  "calculateMean values =
     (if length values = 0 then 0
      else foldl (\<lambda>sum val. sum + val) 0 values / real (length values))"

text \<open>
  \<open>[...values].sort((a, b) => a - b)\<close> sorts a fresh copy ascending; on finite numbers the
  comparator is a total order, so the result is the sorted permutation \<^term>\<open>sort values\<close>.
  Both index reads are in range whenever the sequence is non-empty
  (lemma \<open>calculateMedian_reads_in_range\<close>).
\<close>

definition calculateMedian :: "real list \<Rightarrow> real" where
  "calculateMedian values =
     (if length values = 0 then 0
      else let sorted = sort values;
               mid = length sorted div 2
           in if length sorted mod 2 = 0 then (sorted ! (mid - 1) + sorted ! mid) / 2
              else sorted ! mid)"

text \<open>
  The \<open>Map<number, number>\<close> of occurrence counts keeps its keys in insertion order:
  \<open>set\<close> on a present key overwrites in place, on a new key appends.
\<close>

fun map_set :: "(real \<times> nat) list \<Rightarrow> real \<Rightarrow> nat \<Rightarrow> (real \<times> nat) list" where
  "map_set [] k v = [(k, v)]"
| "map_set ((k', v') # rest) k v =
     (if k' = k then (k, v) # rest else (k', v') # map_set rest k v)"

definition map_get_or_0 :: "(real \<times> nat) list \<Rightarrow> real \<Rightarrow> nat" where
  "map_get_or_0 counts k = (case map_of counts k of None \<Rightarrow> 0 | Some c \<Rightarrow> c)"

text \<open>The counting loop: the state is the map and \<open>maxCount\<close>.\<close>

fun count_loop :: "real list \<Rightarrow> (real \<times> nat) list \<times> nat \<Rightarrow> (real \<times> nat) list \<times> nat" where
  "count_loop [] st = st"
| "count_loop (value # rest) (counts, maxCount) =
     (let count = map_get_or_0 counts value + 1
      in count_loop rest (map_set counts value count, max maxCount count))"

definition calculateMode :: "real list \<Rightarrow> real list" where
  "calculateMode values =
     (if length values = 0 then []
      else case count_loop values ([], 0) of
        (counts, maxCount) \<Rightarrow>
          if maxCount = 1 \<and> length values > 1 then []
          else sort (map fst (filter (\<lambda>(value, count). count = maxCount) counts)))"

definition calculateVariance :: "real list \<Rightarrow> real" where
  "calculateVariance values =
     (if length values = 0 then 0
      else let mean = calculateMean values;
               squaredDiffs = map (\<lambda>val. (val - mean) ^ 2) values
           in foldl (\<lambda>sum val. sum + val) 0 squaredDiffs / real (length values))"

definition calculateSampleVariance :: "real list \<Rightarrow> real" where
  "calculateSampleVariance values =
     (if length values \<le> 1 then 0
      else let mean = calculateMean values;
               squaredDiffs = map (\<lambda>val. (val - mean) ^ 2) values
           in foldl (\<lambda>sum val. sum + val) 0 squaredDiffs / (real (length values) - 1))"

definition calculateSampleStdDev :: "real list \<Rightarrow> real" where
  "calculateSampleStdDev values = sqrt (calculateSampleVariance values)"

definition calculateStdDev :: "real list \<Rightarrow> real" where
  "calculateStdDev values = sqrt (calculateVariance values)"

text \<open>The interface \<open>StatisticsData\<close>; the field names carry the prefix \<open>sd_\<close>.\<close>

record StatisticsData =
  sd_values :: "real list"
  sd_mean :: real
  sd_median :: real
  sd_mode :: "real list"
  sd_stdDev :: real
  sd_variance :: real
  sd_sum :: real
  sd_count :: nat

definition calculateStatistics :: "real list \<Rightarrow> StatisticsData" where
  "calculateStatistics values =
     \<lparr> sd_values = values,
       sd_mean = calculateMean values,
       sd_median = calculateMedian values,
       sd_mode = calculateMode values,
       sd_stdDev = calculateStdDev values,
       sd_variance = calculateVariance values,
       sd_sum = calculateSum values,
       sd_count = length values \<rparr>"

section \<open>Rounding arithmetic\<close>

text \<open>
  An arithmetic operation on two finite numbers returns its exact result rounded to a
  representable number, or an infinity when the rounded result is out of range.  The
  rounding is a parameter \<open>fl\<close> of the operations and of the functions built from them:
  the properties below hold for every rounding that meets their stated hypotheses, and
  \<open>binary64\<close> (IEEE 754 double precision, round to nearest, ties to even) is one.  The
  special values combine as in IEEE 754.
\<close>

type_synonym rounding = "real \<Rightarrow> jsnum"

fun jadd :: "rounding \<Rightarrow> jsnum \<Rightarrow> jsnum \<Rightarrow> jsnum" where
  "jadd fl (Fin a) (Fin b) = fl (a + b)"
| "jadd fl NaN y = NaN"
| "jadd fl x NaN = NaN"
| "jadd fl PosInf NegInf = NaN"
| "jadd fl NegInf PosInf = NaN"
| "jadd fl PosInf y = PosInf"
| "jadd fl NegInf y = NegInf"
| "jadd fl x PosInf = PosInf"
| "jadd fl x NegInf = NegInf"

fun jsub :: "rounding \<Rightarrow> jsnum \<Rightarrow> jsnum \<Rightarrow> jsnum" where
  "jsub fl (Fin a) (Fin b) = fl (a - b)"
| "jsub fl NaN y = NaN"
| "jsub fl x NaN = NaN"
| "jsub fl PosInf PosInf = NaN"
| "jsub fl NegInf NegInf = NaN"
| "jsub fl PosInf y = PosInf"
| "jsub fl NegInf y = NegInf"
| "jsub fl x PosInf = NegInf"
| "jsub fl x NegInf = PosInf"

fun jmul :: "rounding \<Rightarrow> jsnum \<Rightarrow> jsnum \<Rightarrow> jsnum" where
  "jmul fl (Fin a) (Fin b) = fl (a * b)"
| "jmul fl NaN y = NaN"
| "jmul fl x NaN = NaN"
| "jmul fl PosInf (Fin b) = (if b > 0 then PosInf else if b < 0 then NegInf else NaN)"
| "jmul fl NegInf (Fin b) = (if b > 0 then NegInf else if b < 0 then PosInf else NaN)"
| "jmul fl (Fin a) PosInf = (if a > 0 then PosInf else if a < 0 then NegInf else NaN)"
| "jmul fl (Fin a) NegInf = (if a > 0 then NegInf else if a < 0 then PosInf else NaN)"
| "jmul fl PosInf PosInf = PosInf"
| "jmul fl PosInf NegInf = NegInf"
| "jmul fl NegInf PosInf = NegInf"
| "jmul fl NegInf NegInf = PosInf"

fun jdiv :: "rounding \<Rightarrow> jsnum \<Rightarrow> jsnum \<Rightarrow> jsnum" where
  "jdiv fl (Fin a) (Fin b) =
     (if b = 0 then (if a > 0 then PosInf else if a < 0 then NegInf else NaN) else fl (a / b))"
| "jdiv fl NaN y = NaN"
| "jdiv fl x NaN = NaN"
| "jdiv fl PosInf (Fin b) = (if b \<ge> 0 then PosInf else NegInf)"
| "jdiv fl NegInf (Fin b) = (if b \<ge> 0 then NegInf else PosInf)"
| "jdiv fl (Fin a) y = Fin 0"
| "jdiv fl x y = NaN"

text \<open>The comparisons \<open><\<close>, \<open><=\<close> and \<open>===\<close> on numbers; every comparison with \<open>NaN\<close> is false.\<close>

fun jless :: "jsnum \<Rightarrow> jsnum \<Rightarrow> bool" where
  "jless (Fin a) (Fin b) = (a < b)"
| "jless NaN y = False"
| "jless x NaN = False"
| "jless x NegInf = False"
| "jless PosInf y = False"
| "jless x PosInf = True"
| "jless NegInf y = True"

fun jle :: "jsnum \<Rightarrow> jsnum \<Rightarrow> bool" where
  "jle (Fin a) (Fin b) = (a \<le> b)"
| "jle NaN y = False"
| "jle x NaN = False"
| "jle NegInf y = True"
| "jle x PosInf = True"
| "jle x y = False"

fun jeq :: "jsnum \<Rightarrow> jsnum \<Rightarrow> bool" where
  "jeq (Fin a) (Fin b) = (a = b)"
| "jeq PosInf PosInf = True"
| "jeq NegInf NegInf = True"
| "jeq x y = False"

text \<open>\<open>Math.round(x)\<close> is \<open>\<lfloor>x + 1/2\<rfloor>\<close> on a finite number and the identity on the others.\<close>

fun Math_round :: "jsnum \<Rightarrow> jsnum" where
  "Math_round (Fin x) = Fin (of_int \<lfloor>x + 1 / 2\<rfloor>)"
| "Math_round x = x"

section \<open>Combinatorics (\<open>utils/statistics.ts\<close>)\<close>

text \<open>
  A thrown \<open>Error\<close> is the left injection, carrying the message.  The loops count with
  rounded numbers, so nothing in their text bounds the number of iterations: a loop is a
  partial function, and \<open>None\<close> stands for a call that does not return.
\<close>

type_synonym 'a thrown = "string + 'a"

text \<open>\<open>for (let i = 2; i <= n; i++) result *= i\<close>\<close>

partial_function (option) fact_loop ::
  "rounding \<Rightarrow> jsnum \<Rightarrow> jsnum \<Rightarrow> jsnum \<Rightarrow> jsnum option" where
  "fact_loop fl n i result =
     (if jle i n then fact_loop fl n (jadd fl i (Fin 1)) (jmul fl result i) else Some result)"

declare fact_loop.simps [code]

definition factorial :: "rounding \<Rightarrow> jsnum \<Rightarrow> jsnum thrown option" where
  "factorial fl n =
     (if jless n (Fin 0) \<or> \<not> isInteger n
      then Some (Inl ''Factorial requires a non-negative integer'')
      else if jeq n (Fin 0) \<or> jeq n (Fin 1) then Some (Inr (Fin 1))
      else if jless (Fin 170) n then Some (Inr PosInf)
      else map_option Inr (fact_loop fl n (Fin 2) (Fin 1)))"

text \<open>\<open>for (let i = n; i > n - r; i--) result *= i\<close>\<close>

partial_function (option) perm_loop ::
  "rounding \<Rightarrow> jsnum \<Rightarrow> jsnum \<Rightarrow> jsnum \<Rightarrow> jsnum \<Rightarrow> jsnum option" where
  "perm_loop fl n r i result =
     (if jless (jsub fl n r) i then perm_loop fl n r (jsub fl i (Fin 1)) (jmul fl result i)
      else Some result)"

declare perm_loop.simps [code]

definition permutations :: "rounding \<Rightarrow> jsnum \<Rightarrow> jsnum \<Rightarrow> jsnum thrown option" where
  "permutations fl n r =
     (if jless n (Fin 0) \<or> jless r (Fin 0) \<or> \<not> isInteger n \<or> \<not> isInteger r
      then Some (Inl ''nPr requires non-negative integers'')
      else if jless n r then Some (Inr (Fin 0))
      else if jeq r (Fin 0) then Some (Inr (Fin 1))
      else map_option Inr (perm_loop fl n r n (Fin 1)))"

text \<open>\<open>for (let i = 0; i < k; i++) result = (result * (n - i)) / (i + 1)\<close>\<close>

partial_function (option) comb_loop ::
  "rounding \<Rightarrow> jsnum \<Rightarrow> jsnum \<Rightarrow> jsnum \<Rightarrow> jsnum \<Rightarrow> jsnum option" where
  "comb_loop fl n k i result =
     (if jless i k
      then comb_loop fl n k (jadd fl i (Fin 1))
             (jdiv fl (jmul fl result (jsub fl n i)) (jadd fl i (Fin 1)))
      else Some result)"

declare comb_loop.simps [code]

definition combinations :: "rounding \<Rightarrow> jsnum \<Rightarrow> jsnum \<Rightarrow> jsnum thrown option" where
  "combinations fl n r =
     (if jless n (Fin 0) \<or> jless r (Fin 0) \<or> \<not> isInteger n \<or> \<not> isInteger r
      then Some (Inl ''nCr requires non-negative integers'')
      else if jless n r then Some (Inr (Fin 0))
      else if jeq r (Fin 0) \<or> jeq r n then Some (Inr (Fin 1))
      else let k = (if jless (jsub fl n r) r then jsub fl n r else r)
           in map_option (\<lambda>result. Inr (Math_round result)) (comb_loop fl n k (Fin 0) (Fin 1)))"

section \<open>Probability (\<open>utils/statistics.ts\<close>)\<close>

text \<open>The coefficient arrays of \<open>normalInverseCDF\<close>, read by index as in the source.\<close>

definition coeff_a :: "real list" where
  "coeff_a = [-39.69683028665376, 220.9460984245205, -275.9285104469687,
              138.3577518672690, -30.66479806614716, 2.506628277459239]"

definition coeff_b :: "real list" where
  "coeff_b = [-54.47609879822406, 161.5858368580409, -155.6989798598866,
              66.80131188771972, -13.28068155288572]"

definition coeff_c :: "real list" where
  "coeff_c = [-0.007784894002430293, -0.3223964580411365, -2.400758277161838,
              -2.549732539343734, 4.374664141464968, 2.938163982698783]"

definition coeff_d :: "real list" where
  "coeff_d = [0.007784695709041462, 0.3224671290700398, 2.445134137142996,
              3.754408661907416]"

text \<open>\<open>Math.log\<close> is the natural logarithm \<^const>\<open>ln\<close>, \<open>Math.sqrt\<close> is \<^const>\<open>sqrt\<close>.\<close>

definition normalInverseCDF :: "real \<Rightarrow> real \<Rightarrow> real \<Rightarrow> real thrown" where
  "normalInverseCDF p mean stdDev =
     (if p \<le> 0 \<or> p \<ge> 1 then Inl ''Probability must be between 0 and 1 (exclusive)''
      else
        let a = coeff_a; b = coeff_b; c = coeff_c; d = coeff_d;
            pLow = 0.02425;
            pHigh = 1 - pLow;
            z = (if p < pLow then
                   let q = sqrt (- 2 * ln p)
                   in (((((c ! 0 * q + c ! 1) * q + c ! 2) * q + c ! 3) * q + c ! 4) * q + c ! 5) /
                      ((((d ! 0 * q + d ! 1) * q + d ! 2) * q + d ! 3) * q + 1)
                 else if p \<le> pHigh then
                   let q = p - 0.5;
                       r = q * q
                   in ((((((a ! 0 * r + a ! 1) * r + a ! 2) * r + a ! 3) * r + a ! 4) * r + a ! 5) * q) /
                      (((((b ! 0 * r + b ! 1) * r + b ! 2) * r + b ! 3) * r + b ! 4) * r + 1)
                 else
                   let q = sqrt (- 2 * ln (1 - p))
                   in - (((((c ! 0 * q + c ! 1) * q + c ! 2) * q + c ! 3) * q + c ! 4) * q + c ! 5) /
                      ((((d ! 0 * q + d ! 1) * q + d ! 2) * q + d ! 3) * q + 1))
        in Inr (z * stdDev + mean))"

text \<open>
  The three regions in the words of the specification: the tail rational function (six
  numerator and four denominator coefficients) and the central one (six and five), used
  to state what \<open>normalInverseCDF\<close> returns.
\<close>

definition tail_rational :: "real \<Rightarrow> real" where
  "tail_rational q =
     (((((- 0.007784894002430293 * q - 0.3223964580411365) * q - 2.400758277161838) * q
          - 2.549732539343734) * q + 4.374664141464968) * q + 2.938163982698783) /
     ((((0.007784695709041462 * q + 0.3224671290700398) * q + 2.445134137142996) * q
          + 3.754408661907416) * q + 1)"

definition central_rational :: "real \<Rightarrow> real" where
  "central_rational q =
     (let r = q * q in
      ((((((- 39.69683028665376 * r + 220.9460984245205) * r - 275.9285104469687) * r
          + 138.3577518672690) * r - 30.66479806614716) * r + 2.506628277459239) * q) /
      (((((- 54.47609879822406 * r + 161.5858368580409) * r - 155.6989798598866) * r
          + 66.80131188771972) * r - 13.28068155288572) * r + 1))"

definition standard_quantile :: "real \<Rightarrow> real" where
  "standard_quantile p =
     (if p < 0.02425 then tail_rational (sqrt (- 2 * ln p))
      else if p > 1 - 0.02425 then - tail_rational (sqrt (- 2 * ln (1 - p)))
      else central_rational (p - 0.5))"

section \<open>Strings and regular expressions (\<open>utils/math-engine.ts\<close>)\<close>

text \<open>
  A JavaScript string is a sequence of UTF-16 code units, so \<open>length\<close> is the \<open>length\<close> of
  the list and the non-ASCII glyphs of the source (\<open>\<times>\<close> U+00D7, \<open>\<div>\<close> U+00F7, \<open>\<pi>\<close> U+03C0,
  the root sign U+221A) are single elements.  \<open>js\<close> embeds an ASCII literal.
\<close>

type_synonym jschar = nat
type_synonym jsstring = "jschar list"

definition js :: "string \<Rightarrow> jsstring" where
  "js s = map of_char s"

definition glyph_times :: jschar where "glyph_times = 215"
definition glyph_divide :: jschar where "glyph_divide = 247"
definition glyph_pi :: jschar where "glyph_pi = 960"
definition glyph_sqrt :: jschar where "glyph_sqrt = 8730"

text \<open>The character classes \<open>\d\<close>, \<open>[a-zA-Z]\<close>, \<open>\w\<close> and \<open>\s\<close> (without the \<open>u\<close> flag).\<close>

definition is_digit :: "jschar \<Rightarrow> bool" where
  "is_digit c \<longleftrightarrow> 48 \<le> c \<and> c \<le> 57"

definition is_letter :: "jschar \<Rightarrow> bool" where
  "is_letter c \<longleftrightarrow> (65 \<le> c \<and> c \<le> 90) \<or> (97 \<le> c \<and> c \<le> 122)"

definition is_word :: "jschar \<Rightarrow> bool" where
  "is_word c \<longleftrightarrow> is_letter c \<or> is_digit c \<or> c = 95"

definition is_space :: "jschar \<Rightarrow> bool" where
  "is_space c \<longleftrightarrow>
     c \<in> set [9, 10, 11, 12, 13, 32, 160, 5760, 8232, 8233, 8239, 8287, 12288, 65279]
     \<or> (8192 \<le> c \<and> c \<le> 8202)"

text \<open>
  \<open>\b\<close> holds between two neighbouring positions when exactly one of them is a word
  character; the positions before the first and after the last character count as
  non-word.
\<close>

definition word_boundary :: "jschar option \<Rightarrow> jschar option \<Rightarrow> bool" where
  "word_boundary prev next \<longleftrightarrow>
     (case prev of None \<Rightarrow> False | Some c \<Rightarrow> is_word c)
       \<noteq> (case next of None \<Rightarrow> False | Some c \<Rightarrow> is_word c)"

text \<open>\<open>String.prototype.trim\<close> strips the characters of \<open>\s\<close> from both ends.\<close>

definition trim :: "jsstring \<Rightarrow> jsstring" where
  "trim s = rev (dropWhile is_space (rev (dropWhile is_space s)))"

text \<open>\<open>String.prototype.includes\<close> and \<open>substring\<close> (for \<open>start \<le> stop\<close>); \<open>includes\<close> is written \<open>includes_js\<close>.\<close>

fun includes_js :: "jsstring \<Rightarrow> jsstring \<Rightarrow> bool" where
  "includes_js [] pat = (pat = [])"
| "includes_js (c # cs) pat = (prefix pat (c # cs) \<or> includes_js cs pat)"

definition substring :: "jsstring \<Rightarrow> nat \<Rightarrow> nat \<Rightarrow> jsstring" where
  "substring s start stop = take (stop - start) (drop start s)"

text \<open>
  \<open>s.replace(/pat/g, rep)\<close> for a literal, non-empty pattern: scan from the left, replace a
  match and continue behind it.
\<close>

fun replace_all :: "jsstring \<Rightarrow> jsstring \<Rightarrow> jsstring \<Rightarrow> jsstring" where
  "replace_all pat rep [] = []"
| "replace_all pat rep (c # cs) =
     (if pat \<noteq> [] \<and> prefix pat (c # cs)
      then rep @ replace_all pat rep (drop (length pat - 1) cs)
      else c # replace_all pat rep cs)"

text \<open>
  \<open>s.replace(/\bpat/g, rep)\<close>: as before, but a match must start at a word boundary.  The
  extra argument is the character before the current position in the string being
  matched (the original, not the output).
\<close>

fun replace_all_b :: "jsstring \<Rightarrow> jsstring \<Rightarrow> jschar option \<Rightarrow> jsstring \<Rightarrow> jsstring" where
  "replace_all_b pat rep prev [] = []"
| "replace_all_b pat rep prev (c # cs) =
     (if pat \<noteq> [] \<and> word_boundary prev (Some c) \<and> prefix pat (c # cs)
      then rep @ replace_all_b pat rep (Some (last pat)) (drop (length pat - 1) cs)
      else c # replace_all_b pat rep (Some c) cs)"

section \<open>The normalizer \<open>preprocessExpression\<close>\<close>

text \<open>The logarithm steps: protect, rename, restore.\<close>

definition rewrite_logarithms :: "jsstring \<Rightarrow> jsstring" where
  "rewrite_logarithms s =
     (let processed = replace_all_b (js ''ln('') (js ''__NATLOG__('') None s;
          processed = replace_all_b (js ''log10('') (js ''__LOG10__('') None processed;
          processed = replace_all_b (js ''log2('') (js ''__LOG2__('') None processed;
          processed = replace_all_b (js ''log('') (js ''log10('') None processed;
          processed = replace_all (js ''__NATLOG__('') (js ''log('') processed;
          processed = replace_all (js ''__LOG10__('') (js ''log10('') processed;
          processed = replace_all (js ''__LOG2__('') (js ''log2('') processed
      in processed)"

text \<open>
  Implicit multiplication, \<open>/(\d)(?=\s*[a-zA-Z(])(?![0-9])/g\<close> with a callback.  The two
  lookaheads inspect the rest of the string behind the digit; the callback reads the
  up to four characters before the digit from the string being matched.
\<close>

definition lookahead_letter_or_paren :: "jsstring \<Rightarrow> bool" where
  "lookahead_letter_or_paren rest =
     (case dropWhile is_space rest of [] \<Rightarrow> False | d # _ \<Rightarrow> is_letter d \<or> d = 40)"

definition lookahead_digit :: "jsstring \<Rightarrow> bool" where
  "lookahead_digit rest = (case rest of [] \<Rightarrow> False | d # _ \<Rightarrow> is_digit d)"

definition multiplication_callback :: "jsstring \<Rightarrow> jschar \<Rightarrow> nat \<Rightarrow> jsstring" where
  "multiplication_callback processed digit offset =
     (let before_digit = substring processed (max 0 (offset - 4)) offset
      in if (suffix (js ''log'') before_digit \<or> suffix (js ''log1'') before_digit)
             \<or> suffix (js ''log'') before_digit
         then [digit]
         else [digit, 42])"

fun multiplication_scan :: "jsstring \<Rightarrow> nat \<Rightarrow> jsstring \<Rightarrow> jsstring" where
  "multiplication_scan processed offset [] = []"
| "multiplication_scan processed offset (c # cs) =
     (if is_digit c \<and> lookahead_letter_or_paren cs \<and> \<not> lookahead_digit cs
      then multiplication_callback processed c offset @ multiplication_scan processed (offset + 1) cs
      else c # multiplication_scan processed (offset + 1) cs)"

definition implicit_multiplication :: "jsstring \<Rightarrow> jsstring" where
  "implicit_multiplication processed = multiplication_scan processed 0 processed"

text \<open>
  Percent, \<open>/(\d+\.?\d*)%/g\<close> replaced by \<open>($1/100)\<close>.  \<open>percent_match\<close> gives the length of
  the match starting at the head of its argument, if there is one: the digits are taken
  greedily, and no shorter choice can reach the \<open>%\<close>.
\<close>

definition percent_match :: "jsstring \<Rightarrow> nat option" where
  "percent_match s =
     (let d1 = takeWhile is_digit s;
          r1 = dropWhile is_digit s;
          dot = (case r1 of [] \<Rightarrow> [] | c # _ \<Rightarrow> if c = 46 then [c] else []);
          r2 = drop (length dot) r1;
          d2 = takeWhile is_digit r2;
          r3 = dropWhile is_digit r2
      in if d1 = [] then None
         else case r3 of [] \<Rightarrow> None
              | c # _ \<Rightarrow> if c = 37 then Some (length d1 + length dot + length d2 + 1) else None)"

fun percent_scan :: "jsstring \<Rightarrow> jsstring" where
  "percent_scan [] = []"
| "percent_scan (c # cs) =
     (case percent_match (c # cs) of
        Some m \<Rightarrow> js ''('' @ take (m - 1) (c # cs) @ js ''/100)'' @ percent_scan (drop (m - 1) cs)
      | None \<Rightarrow> c # percent_scan cs)"

definition preprocessExpression :: "jsstring \<Rightarrow> jsstring" where
  "preprocessExpression expression =
     (let processed = expression;
          processed = replace_all [glyph_times] (js ''*'') processed;
          processed = replace_all [glyph_divide] (js ''/'') processed;
          processed = replace_all [glyph_pi] (js ''pi'') processed;
          processed = replace_all (glyph_sqrt # js ''('') (js ''sqrt('') processed;
          processed = rewrite_logarithms processed;
          processed = implicit_multiplication processed;
          processed = percent_scan processed
      in processed)"

section \<open>The evaluation adapter (\<open>utils/math-engine.ts\<close>)\<close>

text \<open>
  Arithmetic on the special values follows IEEE 754; on finite values it is exact.  The
  \<open>Math\<close> functions return \<open>NaN\<close> outside their domain.
\<close>

fun jtimes :: "jsnum \<Rightarrow> jsnum \<Rightarrow> jsnum" where
  "jtimes (Fin a) (Fin b) = Fin (a * b)"
| "jtimes NaN y = NaN"
| "jtimes x NaN = NaN"
| "jtimes PosInf (Fin b) = (if b > 0 then PosInf else if b < 0 then NegInf else NaN)"
| "jtimes NegInf (Fin b) = (if b > 0 then NegInf else if b < 0 then PosInf else NaN)"
| "jtimes (Fin a) PosInf = (if a > 0 then PosInf else if a < 0 then NegInf else NaN)"
| "jtimes (Fin a) NegInf = (if a > 0 then NegInf else if a < 0 then PosInf else NaN)"
| "jtimes PosInf PosInf = PosInf"
| "jtimes PosInf NegInf = NegInf"
| "jtimes NegInf PosInf = NegInf"
| "jtimes NegInf NegInf = PosInf"

fun Math_sin :: "jsnum \<Rightarrow> jsnum" where
  "Math_sin (Fin x) = Fin (sin x)"
| "Math_sin x = NaN"

fun Math_cos :: "jsnum \<Rightarrow> jsnum" where
  "Math_cos (Fin x) = Fin (cos x)"
| "Math_cos x = NaN"

fun Math_tan :: "jsnum \<Rightarrow> jsnum" where
  "Math_tan (Fin x) = Fin (tan x)"
| "Math_tan x = NaN"

fun Math_asin :: "jsnum \<Rightarrow> jsnum" where
  "Math_asin (Fin x) = (if - 1 \<le> x \<and> x \<le> 1 then Fin (arcsin x) else NaN)"
| "Math_asin x = NaN"

fun Math_acos :: "jsnum \<Rightarrow> jsnum" where
  "Math_acos (Fin x) = (if - 1 \<le> x \<and> x \<le> 1 then Fin (arccos x) else NaN)"
| "Math_acos x = NaN"

fun Math_atan :: "jsnum \<Rightarrow> jsnum" where
  "Math_atan (Fin x) = Fin (arctan x)"
| "Math_atan PosInf = Fin (pi / 2)"
| "Math_atan NegInf = Fin (- (pi / 2))"
| "Math_atan NaN = NaN"

definition degreesToRadians :: "jsnum \<Rightarrow> jsnum" where
  "degreesToRadians degrees = jtimes degrees (Fin (pi / 180))"

definition radiansToDegrees :: "jsnum \<Rightarrow> jsnum" where
  "radiansToDegrees radians = jtimes radians (Fin (180 / pi))"

datatype AngleUnit = Deg | Rad

text \<open>
  \<open>CalculationResult\<close>: the success variant carries the value (a number or a string) and
  the display string, the failure variant the error string.
\<close>

datatype result_value = NumberValue jsnum | StringValue jsstring

datatype CalculationResult = Success result_value jsstring | Failure jsstring

text \<open>
  The collaborators of the adapter are not code of the repository and are parameters of
  the model, collected in one record: the expression evaluator \<open>math.evaluate\<close> with its
  scope of overriding functions, \<open>math.format\<close>, and the number formatting of the language
  (\<open>toExponential\<close>, \<open>toPrecision\<close>, \<open>Number\<close> of a string, \<open>toString\<close>).  A call that
  throws returns the message of the thrown \<open>Error\<close> on the left.
\<close>

text \<open>
  A result of the evaluator that is neither a number nor a boolean (a matrix, a complex
  number, a unit, ...) is an opaque handle; only \<open>math.format\<close> looks at it.
\<close>

datatype mathjs_object = MathjsObject nat

datatype mathjs_value =
  MNumber jsnum | MBoolean bool | MObject mathjs_object | MNullish

type_synonym scope = "(jsstring \<times> (jsnum \<Rightarrow> jsnum)) list"

record host =
  math_evaluate :: "jsstring \<Rightarrow> scope \<Rightarrow> jsstring + mathjs_value"
  math_format :: "mathjs_object \<Rightarrow> nat \<Rightarrow> jsstring + jsstring"
  toExponential :: "real \<Rightarrow> nat \<Rightarrow> jsstring"
  toPrecision :: "real \<Rightarrow> nat \<Rightarrow> jsstring"
  Number_of_string :: "jsstring \<Rightarrow> jsnum"
  toString :: "jsnum \<Rightarrow> jsstring"

definition DISPLAY_PRECISION :: nat where
  "DISPLAY_PRECISION = 12"

definition ERROR_MESSAGES :: "(jsstring \<times> jsstring) list" where
  "ERROR_MESSAGES =
     [(js ''Undefined function'', js ''Unknown function''),
      (js ''Unexpected end of expression'', js ''Incomplete expression''),
      (js ''Value expected'', js ''Missing value''),
      (js ''Parenthesis ) expected'', js ''Missing )''),
      (js ''Cannot divide by zero'', js ''Divide by zero'')]"

definition formatNumber :: "host \<Rightarrow> jsnum \<Rightarrow> jsstring" where
  "formatNumber h v =
     (case v of
        NaN \<Rightarrow> js ''Error''
      | PosInf \<Rightarrow> js ''Infinity''
      | NegInf \<Rightarrow> js ''-Infinity''
      | Fin x \<Rightarrow>
          if \<bar>x\<bar> > 10 ^ 12 \<or> (\<bar>x\<bar> < 1 / 10 ^ 10 \<and> x \<noteq> 0)
          then toExponential h x (DISPLAY_PRECISION - 4)
          else let rounded = Number_of_string h (toPrecision h x DISPLAY_PRECISION);
                   str = toString h rounded
               in if length str > DISPLAY_PRECISION + 2
                  then toExponential h x (DISPLAY_PRECISION - 4)
                  else str)"

definition transformForAngleUnit :: "jsstring \<Rightarrow> AngleUnit \<Rightarrow> jsstring" where
  "transformForAngleUnit expression angleUnit =
     (if angleUnit = Rad then expression else expression)"

text \<open>The loop over \<open>Object.entries(ERROR_MESSAGES)\<close> returns at the first pattern found.\<close>

fun first_friendly :: "(jsstring \<times> jsstring) list \<Rightarrow> jsstring \<Rightarrow> jsstring option" where
  "first_friendly [] message = None"
| "first_friendly ((pattern, friendly) # rest) message =
     (if includes_js message pattern then Some friendly else first_friendly rest message)"

definition getUserFriendlyError :: "jsstring \<Rightarrow> jsstring" where
  "getUserFriendlyError message =
     (case first_friendly ERROR_MESSAGES message of
        Some friendly \<Rightarrow> friendly
      | None \<Rightarrow> if length message > 30 then js ''Syntax Error'' else message)"

text \<open>The scope built by \<open>evaluate\<close>: six overrides in degree mode, none in radian mode.\<close>

definition angle_scope :: "AngleUnit \<Rightarrow> scope" where
  "angle_scope angleUnit =
     (if angleUnit = Deg
      then [(js ''sin'', \<lambda>x. Math_sin (degreesToRadians x)),
            (js ''cos'', \<lambda>x. Math_cos (degreesToRadians x)),
            (js ''tan'', \<lambda>x. Math_tan (degreesToRadians x)),
            (js ''asin'', \<lambda>x. radiansToDegrees (Math_asin x)),
            (js ''acos'', \<lambda>x. radiansToDegrees (Math_acos x)),
            (js ''atan'', \<lambda>x. radiansToDegrees (Math_atan x))]
      else [])"

text \<open>
  \<open>evaluate\<close>.  The empty check is outside the \<open>try\<close>; everything after it is inside, so
  a throwing collaborator lands in the \<open>catch\<close> branch.
\<close>

definition evaluate :: "host \<Rightarrow> jsstring \<Rightarrow> AngleUnit \<Rightarrow> CalculationResult" where
  "evaluate h expression angleUnit =
     (if trim expression = [] then Failure (js ''Empty expression'')
      else
        let processed = preprocessExpression expression;
            processed = transformForAngleUnit processed angleUnit;
            scope = angle_scope angleUnit
        in case math_evaluate h processed scope of
             Inl message \<Rightarrow> Failure (getUserFriendlyError message)
           | Inr (MNumber result) \<Rightarrow> Success (NumberValue result) (formatNumber h result)
           | Inr (MBoolean result) \<Rightarrow>
               Success (StringValue (if result then js ''true'' else js ''false''))
                 (if result then js ''true'' else js ''false'')
           | Inr (MObject result) \<Rightarrow>
               (case math_format h result DISPLAY_PRECISION of
                  Inl message \<Rightarrow> Failure (getUserFriendlyError message)
                | Inr str \<Rightarrow> Success (StringValue str) str)
           | Inr MNullish \<Rightarrow> Failure (js ''No result''))"

section \<open>The function sampler (\<open>utils/graphing.ts\<close>)\<close>

text \<open>
  \<open>expression.replace(/\bx\b/gi, rep)\<close>: the match is the single character \<open>x\<close> or \<open>X\<close> with a
  word boundary on both sides, so every position is decided by its two neighbours in
  the original string.
\<close>

definition next_char :: "jsstring \<Rightarrow> jschar option" where
  "next_char rest = (case rest of [] \<Rightarrow> None | d # _ \<Rightarrow> Some d)"

fun replace_x :: "jsstring \<Rightarrow> jschar option \<Rightarrow> jsstring \<Rightarrow> jsstring" where
  "replace_x rep prev [] = []"
| "replace_x rep prev (c # cs) =
     (if (c = 120 \<or> c = 88) \<and> word_boundary prev (Some c) \<and> word_boundary (Some c) (next_char cs)
      then rep @ replace_x rep (Some c) cs
      else c # replace_x rep (Some c) cs)"

text \<open>\<open>evaluateFunction\<close>; the result \<open>null\<close> is \<open>None\<close>.\<close>

definition evaluateFunction :: "host \<Rightarrow> jsstring \<Rightarrow> jsnum \<Rightarrow> jsnum option" where
  "evaluateFunction h expression x =
     (let expr = replace_x (js ''('' @ toString h x @ js '')'') None expression;
          result = evaluate h expr Rad
      in case result of
           Success (NumberValue v) displayValue \<Rightarrow> if isFinite v then Some v else None
         | Success (StringValue v) displayValue \<Rightarrow> None
         | Failure e \<Rightarrow> None)"

section \<open>Combinatorics of the math engine (\<open>utils/math-engine.ts\<close>)\<close>

text \<open>
  The math engine checks the arguments itself and then calls \<open>math.factorial\<close>,
  \<open>math.permutations\<close> and \<open>math.combinations\<close>.  The three library functions are
  parameters; an error they throw passes through the caller.
\<close>

record mathjs_combinatorics =
  math_factorial :: "jsnum \<Rightarrow> jsnum thrown"
  math_permutations :: "jsnum \<Rightarrow> jsnum \<Rightarrow> jsnum thrown"
  math_combinations :: "jsnum \<Rightarrow> jsnum \<Rightarrow> jsnum thrown"

definition engine_factorial :: "mathjs_combinatorics \<Rightarrow> jsnum \<Rightarrow> jsnum thrown" where
  "engine_factorial lib n =
     (if jless n (Fin 0) \<or> \<not> isInteger n
      then Inl ''Factorial requires a non-negative integer''
      else if jless (Fin 170) n then Inr PosInf
      else math_factorial lib n)"

definition engine_permutations ::
  "mathjs_combinatorics \<Rightarrow> jsnum \<Rightarrow> jsnum \<Rightarrow> jsnum thrown" where
  "engine_permutations lib n r =
     (if jless n (Fin 0) \<or> jless r (Fin 0) \<or> \<not> isInteger n \<or> \<not> isInteger r
      then Inl ''Permutations require non-negative integers''
      else if jless n r then Inr (Fin 0)
      else math_permutations lib n r)"

definition engine_combinations ::
  "mathjs_combinatorics \<Rightarrow> jsnum \<Rightarrow> jsnum \<Rightarrow> jsnum thrown" where
  "engine_combinations lib n r =
     (if jless n (Fin 0) \<or> jless r (Fin 0) \<or> \<not> isInteger n \<or> \<not> isInteger r
      then Inl ''Combinations require non-negative integers''
      else if jless n r then Inr (Fin 0)
      else math_combinations lib n r)"

section \<open>Notions used to state the properties\<close>

text \<open>
  The character before and after a position of a string, \<open>None\<close> at the ends, and the
  positions at which the sampler's pattern \<open>/\bx\b/gi\<close> matches: an \<open>x\<close> or \<open>X\<close> with a word
  boundary on both sides.
\<close>

definition prev_at :: "jsstring \<Rightarrow> nat \<Rightarrow> jschar option" where
  "prev_at s i = (if i = 0 then None else Some (s ! (i - 1)))"

definition next_at :: "jsstring \<Rightarrow> nat \<Rightarrow> jschar option" where
  "next_at s i = (if i + 1 < length s then Some (s ! (i + 1)) else None)"

definition x_token :: "jsstring \<Rightarrow> nat \<Rightarrow> bool" where
  "x_token s i \<longleftrightarrow>
     (s ! i = 120 \<or> s ! i = 88)
     \<and> word_boundary (prev_at s i) (Some (s ! i))
     \<and> word_boundary (Some (s ! i)) (next_at s i)"





text \<open>
  What a scope does to a call: the override if the scope has one under that name, the
  native function otherwise.  \<open>resolves_call h src name native arg\<close> says that the
  evaluator of \<open>h\<close> reads the source text \<open>src\<close> as the call of \<open>name\<close> on the number \<open>arg\<close>
  and resolves it in this way, whatever the scope.  It is an assumption on the
  collaborator, made where an example of the specification depends on it.
\<close>

definition scope_call :: "scope \<Rightarrow> jsstring \<Rightarrow> (jsnum \<Rightarrow> jsnum) \<Rightarrow> jsnum \<Rightarrow> jsnum" where
  "scope_call sc name native arg =
     (case map_of sc name of Some f \<Rightarrow> f arg | None \<Rightarrow> native arg)"

definition resolves_call :: "host \<Rightarrow> jsstring \<Rightarrow> jsstring \<Rightarrow> (jsnum \<Rightarrow> jsnum) \<Rightarrow> jsnum \<Rightarrow> bool" where
  "resolves_call h src name native arg \<longleftrightarrow>
     (\<forall>sc. math_evaluate h src sc = Inr (MNumber (scope_call sc name native arg)))"

text \<open>
  A small stand-in for the collaborators, used to instantiate the theorems: its
  evaluator knows three calls, two divisions and two non-numeric results, and throws on
  everything else with a message that depends on the text.
\<close>

definition sample_evaluate :: "jsstring \<Rightarrow> scope \<Rightarrow> jsstring + mathjs_value" where
  "sample_evaluate src sc =
     (if src = js ''sin(90)'' then Inr (MNumber (scope_call sc (js ''sin'') Math_sin (Fin 90)))
      else if src = js ''sin(pi/2)'' then Inr (MNumber (scope_call sc (js ''sin'') Math_sin (Fin (pi / 2))))
      else if src = js ''asin(1)'' then Inr (MNumber (scope_call sc (js ''asin'') Math_asin (Fin 1)))
      else if src = js ''1/(0)'' then Inr (MNumber PosInf)
      else if src = js ''1/(2)'' then Inr (MNumber (Fin (1 / 2)))
      else if src = js ''[1,2]'' then Inr (MObject (MathjsObject 0))
      else if src = js ''[1,'' then Inr (MObject (MathjsObject 1))
      else if src = js ''foo(1)'' then Inl (js ''Undefined function foo'')
      else if src = js ''2+'' then Inl (js ''Unexpected end of expression (char 3)'')
      else if src = js ''@'' then Inl (js ''Syntax error in part @ (char 1)'')
      else Inl (js ''Unexpected operator''))"

definition sample_toString :: "jsnum \<Rightarrow> jsstring" where
  "sample_toString v =
     (if v = Fin 0 then js ''0''
      else if v = Fin 1 then js ''1''
      else if v = Fin 2 then js ''2''
      else if v = Fin 90 then js ''90''
      else if v = Fin (1 / 2) then js ''0.5''
      else js ''NaN'')"

definition sample_toPrecision :: "real \<Rightarrow> nat \<Rightarrow> jsstring" where
  "sample_toPrecision x digits =
     (if x = 1 then js ''1.00000000000''
      else if x = 90 then js ''90.0000000000''
      else js ''0.500000000000'')"

definition sample_Number :: "jsstring \<Rightarrow> jsnum" where
  "sample_Number s =
     (if s = js ''1.00000000000'' then Fin 1
      else if s = js ''90.0000000000'' then Fin 90
      else Fin (1 / 2))"

definition sample_host :: host where
  "sample_host =
     \<lparr> math_evaluate = sample_evaluate,
       math_format = (\<lambda>obj precision.
          if obj = MathjsObject 0 then Inr (js ''[1, 2]'') else Inl (js ''Value expected (char 4)'')),
       toExponential = (\<lambda>x digits. js ''5.00000000e-1''),
       toPrecision = sample_toPrecision,
       Number_of_string = sample_Number,
       toString = sample_toString \<rparr>"

text \<open>
  The logarithm names where they start a word: one pass from the left that turns \<open>ln(\<close>
  into \<open>log(\<close> and \<open>log(\<close> into \<open>log10(\<close> at a word boundary and copies every other
  character, so that \<open>log10(\<close> and \<open>log2(\<close> stay as they are.
\<close>

fun log_names :: "jschar option \<Rightarrow> jsstring \<Rightarrow> jsstring" where
  "log_names prev [] = []"
| "log_names prev (c # cs) =
     (if word_boundary prev (Some c) \<and> prefix (js ''ln('') (c # cs)
      then js ''log('' @ log_names (Some 40) (drop 2 cs)
      else if word_boundary prev (Some c) \<and> prefix (js ''log('') (c # cs)
      then js ''log10('' @ log_names (Some 40) (drop 3 cs)
      else c # log_names (Some c) cs)"

text \<open>
  Every pattern and every replacement of the logarithm steps is a name followed by one
  opening parenthesis.  So each step works on the stretches between the parentheses, one
  at a time: it replaces the name at the end of a stretch, if it is there (and, for the
  steps with \<open>\b\<close>, starts a word).  \<open>before v prev\<close> is the character in front of the name
  when \<open>v\<close> is what precedes it in the stretch.
\<close>

definition before :: "jsstring \<Rightarrow> jschar option \<Rightarrow> jschar option" where
  "before v prev = (if v = [] then prev else Some (last v))"

definition name_fires :: "jsstring \<Rightarrow> jschar option \<Rightarrow> jsstring \<Rightarrow> bool" where
  "name_fires u prev w \<longleftrightarrow>
     suffix u w \<and> word_boundary (before (take (length w - length u) w) prev) (Some (hd u))"

definition chunk_rewrite_b :: "jsstring \<Rightarrow> jsstring \<Rightarrow> jschar option \<Rightarrow> jsstring \<Rightarrow> jsstring" where
  "chunk_rewrite_b u r prev w =
     (if name_fires u prev w then take (length w - length u) w @ r else w)"

definition chunk_rewrite :: "jsstring \<Rightarrow> jsstring \<Rightarrow> jsstring \<Rightarrow> jsstring" where
  "chunk_rewrite u r w = (if suffix u w then take (length w - length u) w @ r else w)"

definition chunk_log_names :: "jschar option \<Rightarrow> jsstring \<Rightarrow> jsstring" where
  "chunk_log_names prev w =
     (if name_fires (js ''ln'') prev w then take (length w - 2) w @ js ''log''
      else if name_fires (js ''log'') prev w then take (length w - 3) w @ js ''log10''
      else w)"

text \<open>The seven steps of \<open>rewrite_logarithms\<close>, started behind the character \<open>prev\<close>.\<close>

definition logarithm_steps :: "jschar option \<Rightarrow> jsstring \<Rightarrow> jsstring" where
  "logarithm_steps prev s =
     replace_all (js ''__LOG2__('') (js ''log2('')
       (replace_all (js ''__LOG10__('') (js ''log10('')
         (replace_all (js ''__NATLOG__('') (js ''log('')
           (replace_all_b (js ''log('') (js ''log10('') prev
             (replace_all_b (js ''log2('') (js ''__LOG2__('') prev
               (replace_all_b (js ''log10('') (js ''__LOG10__('') prev
                 (replace_all_b (js ''ln('') (js ''__NATLOG__('') prev s))))))"

section \<open>Roundings and libraries used to state the properties\<close>

text \<open>
  A rounding is exact at a value when it returns the value itself, and exact on the
  naturals up to \<open>N\<close> when it is exact at each of them.
\<close>

definition exact_at :: "rounding \<Rightarrow> real \<Rightarrow> bool" where
  "exact_at fl x \<longleftrightarrow> fl x = Fin x"

definition exact_naturals :: "rounding \<Rightarrow> nat \<Rightarrow> bool" where
  "exact_naturals fl N \<longleftrightarrow> (\<forall>m \<le> N. fl (real m) = Fin (real m))"

text \<open>
  IEEE 754 binary64, round to nearest with ties to even.  \<open>exponent x\<close> is
  \<open>\<lfloor>log\<^sub>2 \<bar>x\<bar>\<rfloor>\<close> for \<open>x \<noteq> 0\<close>; \<open>ulp x\<close> is the spacing of the representable numbers around
  \<open>x\<close>, with the smallest exponent \<open>-1022\<close> for the subnormal range; a result of
  magnitude \<open>2 ^ 1024\<close> or more overflows to an infinity.
\<close>

definition round_half_even :: "real \<Rightarrow> int" where
  "round_half_even x =
     (let f = \<lfloor>x\<rfloor>; d = x - of_int f
      in if d < 1 / 2 then f else if d > 1 / 2 then f + 1 else if even f then f else f + 1)"

definition exponent :: "real \<Rightarrow> int" where
  "exponent x = (if 1 \<le> \<bar>x\<bar> then bitlen \<lfloor>\<bar>x\<bar>\<rfloor> - 1 else - bitlen (\<lceil>1 / \<bar>x\<bar>\<rceil> - 1))"

definition ulp :: "real \<Rightarrow> real" where
  "ulp x =
     (let e = max (exponent x) (- 1022)
      in if 52 \<le> e then 2 ^ nat (e - 52) else 1 / 2 ^ nat (52 - e))"

definition binary64 :: rounding where
  "binary64 x =
     (if x = 0 then Fin 0
      else let y = of_int (round_half_even (x / ulp x)) * ulp x
           in if 2 ^ 1024 \<le> \<bar>y\<bar> then (if 0 < x then PosInf else NegInf) else Fin y)"

text \<open>
  The library returns a value, rather than throwing, on the arguments the math engine
  passes on to it.
\<close>

definition library_returns :: "mathjs_combinatorics \<Rightarrow> bool" where
  "library_returns lib \<longleftrightarrow>
     (\<forall>n \<le> 170. \<not> isl (math_factorial lib (Fin (real n))))
     \<and> (\<forall>n r. r \<le> n \<longrightarrow> \<not> isl (math_permutations lib (Fin (real n)) (Fin (real r)))
                       \<and> \<not> isl (math_combinations lib (Fin (real n)) (Fin (real r))))"

text \<open>A library that returns the mathematical values, to run the properties on.\<close>

definition sample_mathjs :: mathjs_combinatorics where
  "sample_mathjs =
     \<lparr> math_factorial = (\<lambda>x. case x of
            Fin a \<Rightarrow> Inr (Fin (fact (nat \<lfloor>a\<rfloor>)))
          | _ \<Rightarrow> Inl ''Unexpected type of argument in function factorial''),
       math_permutations = (\<lambda>x y. case (x, y) of
            (Fin a, Fin b) \<Rightarrow> Inr (Fin (fact (nat \<lfloor>a\<rfloor>) / fact (nat \<lfloor>a\<rfloor> - nat \<lfloor>b\<rfloor>)))
          | _ \<Rightarrow> Inl ''Positive integer value expected in function permutations''),
       math_combinations = (\<lambda>x y. case (x, y) of
            (Fin a, Fin b) \<Rightarrow> Inr (Fin (real (nat \<lfloor>a\<rfloor> choose nat \<lfloor>b\<rfloor>)))
          | _ \<Rightarrow> Inl ''Positive integer value expected in function combinations'') \<rparr>"


section \<open>Running the model on concrete inputs\<close>

text \<open>The definitions unfolded to run the normalizer on a concrete string.\<close>

lemmas eval_defs = js_def glyph_times_def glyph_divide_def glyph_pi_def glyph_sqrt_def
  word_boundary_def is_word_def is_letter_def is_digit_def is_space_def
  lookahead_letter_or_paren_def lookahead_digit_def multiplication_callback_def
  substring_def percent_match_def suffix_to_prefix implicit_multiplication_def
  rewrite_logarithms_def preprocessExpression_def

lemma sample_host_fields:
  "math_evaluate sample_host = sample_evaluate"
  "math_format sample_host obj n =
     (if obj = MathjsObject 0 then Inr (js ''[1, 2]'') else Inl (js ''Value expected (char 4)''))"
  "toPrecision sample_host = sample_toPrecision"
  "Number_of_string sample_host = sample_Number"
  "toString sample_host = sample_toString"
  by (simp_all add: sample_host_def)

lemma concat_map_upt_Suc:
  "concat (map f [0..<Suc n]) = f 0 @ concat (map (\<lambda>i. f (Suc i)) [0..<n])"
proof -
  have "[0..<Suc n] = 0 # map Suc [0..<n]"
    by (simp only: upt_conv_Cons zero_less_Suc map_Suc_upt)
  then show ?thesis by (simp add: comp_def)
qed


section \<open>Rounding: binary64 is exact on the integers up to \<open>2 ^ 53\<close>\<close>

text \<open>The definitions unfolded to run \<open>binary64\<close> on a concrete number.\<close>

lemmas binary64_eval = binary64_def ulp_def exponent_def round_half_even_def compute_bitlen
  Let_def

lemma round_half_even_int: "round_half_even (of_int k) = k"
  by (simp add: round_half_even_def)

lemma ulp_pos: "0 < ulp x"
  by (simp add: ulp_def Let_def)

lemma binary64_representable:
  assumes "x / ulp x = of_int k" "\<bar>x\<bar> < 2 ^ 1024"
  shows "binary64 x = Fin x"
proof -
  have "of_int k * ulp x = x"
    using assms(1) ulp_pos [of x] by (simp add: field_simps)
  then have "of_int (round_half_even (x / ulp x)) * ulp x = x"
    by (simp only: assms(1) round_half_even_int)
  then show ?thesis
    using assms(2) by (simp add: binary64_def Let_def)
qed

lemma binary64_exact_nat:
  assumes "m \<le> 2 ^ 53"
  shows "binary64 (real m) = Fin (real m)"
proof (cases "m = 0")
  case True
  then show ?thesis by (simp add: binary64_def)
next
  case False
  define e where "e = bitlen (int m) - 1"
  have pos: "0 < int m" using False by simp
  have b: "2 ^ nat e \<le> int m" "int m < 2 ^ nat (e + 1)"
    using bitlen_bounds [OF pos] by (simp_all add: e_def)
  have e0: "0 \<le> e"
    using pos by (simp add: e_def bitlen_def floorlog_def)
  have m53: "int m \<le> 2 ^ 53"
    using assms by (metis of_nat_le_iff of_nat_numeral of_nat_power)
  have "(2::int) ^ nat e \<le> 2 ^ 53"
    using b(1) m53 by (rule order_trans)
  then have e53: "nat e \<le> 53"
    by (rule power_le_imp_le_exp [rotated]) simp
  have ex: "exponent (real m) = e"
    using False by (simp add: exponent_def e_def)
  have u: "ulp (real m) = (if 52 \<le> e then 2 ^ nat (e - 52) else 1 / 2 ^ nat (52 - e))"
    using e0 by (simp add: ulp_def ex Let_def)
  have "\<exists>k. real m / ulp (real m) = of_int k"
  proof (cases "52 \<le> e")
    case True
    then have "e = 52 \<or> e = 53" using e53 by linarith
    then show ?thesis
    proof
      assume "e = 52"
      then have "real m / ulp (real m) = of_int (int m)"
        by (simp add: u)
      then show ?thesis ..
    next
      assume e: "e = 53"
      then have "int m = 2 ^ 53"
        using b(1) m53 by simp
      then have "real m = 2 ^ 53"
        by (metis of_int_of_nat_eq of_int_numeral of_int_power)
      moreover have "ulp (real m) = 2"
        using e by (simp add: u)
      ultimately have "real m / ulp (real m) = of_int (2 ^ 52)"
        by simp
      then show ?thesis ..
    qed
  next
    case False
    then have "real m / ulp (real m) = of_int (int m * 2 ^ nat (52 - e))"
      by (simp add: u)
    then show ?thesis ..
  qed
  then obtain k where k: "real m / ulp (real m) = of_int k" ..
  have "real m \<le> 2 ^ 53"
    using assms by (metis of_nat_le_iff of_nat_numeral of_nat_power)
  then have "\<bar>real m\<bar> < 2 ^ 1024"
    by simp
  with k show ?thesis
    by (rule binary64_representable)
qed

lemma exact_naturals_binary64: "n \<le> 2 ^ 53 \<Longrightarrow> exact_naturals binary64 n"
  using binary64_exact_nat by (simp add: exact_naturals_def)

lemma exact_at_binary64_nat: "m \<le> 2 ^ 53 \<Longrightarrow> exact_at binary64 (real m)"
  using binary64_exact_nat by (simp add: exact_at_def)

section \<open>Combinatorics: \<open>combinations\<close> under a rounding that is exact on the counters\<close>

text \<open>
  When the rounding is exact on the naturals up to \<open>n\<close>, the counter \<open>i\<close>, \<open>i + 1\<close> and
  \<open>n - i\<close> are what they are on the integers, so the loop takes \<open>k\<close> steps and returns,
  whatever the rounded products and quotients are.
\<close>

lemma exact_naturalsD: "exact_naturals fl N \<Longrightarrow> m \<le> N \<Longrightarrow> fl (real m) = Fin (real m)"
  by (simp add: exact_naturals_def)

lemma comb_loop_step:
  assumes "exact_naturals fl n" "i < k" "k \<le> n"
  shows "comb_loop fl (Fin (real n)) (Fin (real k)) (Fin (real i)) res
       = comb_loop fl (Fin (real n)) (Fin (real k)) (Fin (real (Suc i)))
           (jdiv fl (jmul fl res (Fin (real (n - i)))) (Fin (real (Suc i))))"
proof -
  have "fl (real i + 1) = Fin (real (Suc i))"
    using exact_naturalsD [OF assms(1), of "Suc i"] assms by (simp add: add.commute)
  moreover have "fl (real n - real i) = Fin (real (n - i))"
    using exact_naturalsD [OF assms(1), of "n - i"] assms by (simp add: of_nat_diff)
  ultimately show ?thesis
    using assms(2) by (subst comb_loop.simps) simp
qed

lemma comb_loop_stop: "comb_loop fl n (Fin (real k)) (Fin (real k)) res = Some res"
  by (subst comb_loop.simps) simp

lemma comb_loop_returns:
  assumes "exact_naturals fl n" "k \<le> n"
  shows "i \<le> k \<Longrightarrow> \<exists>v. comb_loop fl (Fin (real n)) (Fin (real k)) (Fin (real i)) res = Some v"
proof (induction "k - i" arbitrary: i res)
  case 0
  then have "i = k" by simp
  then show ?case by (simp add: comb_loop_stop)
next
  case (Suc d)
  then have lt: "i < k" by simp
  have "d = k - Suc i" "Suc i \<le> k" using Suc.hyps(2) lt by simp_all
  then show ?case
    using Suc.hyps(1) [of "Suc i"] comb_loop_step [OF assms(1) lt assms(2)] by simp
qed

lemma combinations_unfold:
  assumes "exact_naturals fl n" "0 < r" "r < n"
  shows "combinations fl (Fin (real n)) (Fin (real r))
       = map_option (\<lambda>result. Inr (Math_round result))
           (comb_loop fl (Fin (real n)) (Fin (real (min r (n - r)))) (Fin 0) (Fin 1))"
proof -
  have sub: "fl (real n - real r) = Fin (real (n - r))"
    using exact_naturalsD [OF assms(1), of "n - r"] assms by (simp add: of_nat_diff)
  have "(if jless (Fin (real (n - r))) (Fin (real r)) then Fin (real (n - r)) else Fin (real r))
      = Fin (real (min r (n - r)))"
    by (simp add: min_def)
  then show ?thesis
    using assms(2,3) by (simp add: combinations_def sub Let_def)
qed

lemma combinations_symmetric:
  assumes "exact_naturals fl n" "r \<le> n"
  shows "combinations fl (Fin (real n)) (Fin (real r))
       = combinations fl (Fin (real n)) (Fin (real (n - r)))"
proof -
  consider "r = 0" | "r = n" | "0 < r" "r < n" using assms(2) by linarith
  then show ?thesis
  proof cases
    case 3
    then have "0 < n - r" "n - r < n" "min (n - r) (n - (n - r)) = min r (n - r)"
      by simp_all
    then show ?thesis
      using combinations_unfold [OF assms(1) 3] combinations_unfold [OF assms(1), of "n - r"]
      by simp
  qed (simp_all add: combinations_def)
qed

text \<open>
  Claim C9.  For all non-negative integers \<open>n\<close> and \<open>r\<close> and every rounding,
  \<open>combinations n 0\<close> and \<open>combinations n n\<close> are \<open>1\<close> and \<open>combinations n r\<close> is \<open>0\<close> when
  \<open>r > n\<close>.  When the rounding is exact on the integers from \<open>0\<close> to \<open>n\<close>, as binary64 is for
  \<open>n \<le> 2 ^ 53\<close>, \<open>combinations n r\<close> equals \<open>combinations n (n - r)\<close> for \<open>r \<le> n\<close>, and for
  \<open>0 < r < n\<close> the multiply-then-divide loop, run over the smaller of \<open>r\<close> and \<open>n - r\<close>,
  returns a value and \<open>combinations n r\<close> is that value rounded to the nearest integer.
\<close>

theorem combinations_identities:
  "combinations fl (Fin (real n)) (Fin 0) = Some (Inr (Fin 1))
   \<and> combinations fl (Fin (real n)) (Fin (real n)) = Some (Inr (Fin 1))
   \<and> (n < r \<longrightarrow> combinations fl (Fin (real n)) (Fin (real r)) = Some (Inr (Fin 0)))
   \<and> (exact_naturals fl n \<longrightarrow>
        (r \<le> n \<longrightarrow> combinations fl (Fin (real n)) (Fin (real r))
                     = combinations fl (Fin (real n)) (Fin (real (n - r))))
        \<and> (0 < r \<and> r < n \<longrightarrow>
             (\<exists>v. comb_loop fl (Fin (real n)) (Fin (real (min r (n - r)))) (Fin 0) (Fin 1) = Some v
                \<and> combinations fl (Fin (real n)) (Fin (real r)) = Some (Inr (Math_round v)))))"
proof (intro conjI impI)
  show "combinations fl (Fin (real n)) (Fin 0) = Some (Inr (Fin 1))"
    by (simp add: combinations_def)
  show "combinations fl (Fin (real n)) (Fin (real n)) = Some (Inr (Fin 1))"
    by (simp add: combinations_def)
next
  assume "n < r"
  then show "combinations fl (Fin (real n)) (Fin (real r)) = Some (Inr (Fin 0))"
    by (simp add: combinations_def)
next
  assume "exact_naturals fl n" "r \<le> n"
  then show "combinations fl (Fin (real n)) (Fin (real r))
      = combinations fl (Fin (real n)) (Fin (real (n - r)))"
    by (rule combinations_symmetric)
next
  assume e: "exact_naturals fl n" and r: "0 < r \<and> r < n"
  have "min r (n - r) \<le> n" "0 \<le> min r (n - r)"
    by simp_all
  from comb_loop_returns [OF e this, of "Fin 1"]
  obtain v where v: "comb_loop fl (Fin (real n)) (Fin (real (min r (n - r)))) (Fin (real 0)) (Fin 1) = Some v"
    by auto
  then show "\<exists>v. comb_loop fl (Fin (real n)) (Fin (real (min r (n - r)))) (Fin 0) (Fin 1) = Some v
      \<and> combinations fl (Fin (real n)) (Fin (real r)) = Some (Inr (Math_round v))"
    using combinations_unfold [OF e, of r] r by simp
qed

text \<open>
  At \<open>n = 56\<close>, \<open>r = 23\<close> in binary64 the loop returns \<open>3167295784216200.5\<close>, which the
  final rounding takes to \<open>3167295784216201\<close>.
\<close>

theorem combinations_identities_witness:
  "exact_naturals binary64 56
   \<and> combinations binary64 (Fin 56) (Fin 23) = combinations binary64 (Fin 56) (Fin 33)
   \<and> comb_loop binary64 (Fin 56) (Fin 23) (Fin 0) (Fin 1) = Some (Fin (6334591568432401 / 2))
   \<and> combinations binary64 (Fin 56) (Fin 23) = Some (Inr (Fin 3167295784216201))
   \<and> combinations binary64 (Fin 56) (Fin 0) = Some (Inr (Fin 1))
   \<and> combinations binary64 (Fin 56) (Fin 56) = Some (Inr (Fin 1))
   \<and> combinations binary64 (Fin 23) (Fin 56) = Some (Inr (Fin 0))"
proof -
  have e: "exact_naturals binary64 56"
    by (rule exact_naturals_binary64) simp
  have run: "comb_loop binary64 (Fin 56) (Fin 23) (Fin 0) (Fin 1) = Some (Fin (6334591568432401 / 2))"
    by (simp add: comb_loop.simps binary64_eval)
  note t = combinations_identities [of binary64 56 23]
  note u = combinations_identities [of binary64 23 56]
  have sym: "combinations binary64 (Fin (real 56)) (Fin (real 23))
      = combinations binary64 (Fin (real 56)) (Fin (real (56 - 23)))"
    using t e by simp
  have "0 < (23::nat) \<and> (23::nat) < 56"
    by simp
  with t e obtain v where
    "comb_loop binary64 (Fin (real 56)) (Fin (real (min 23 (56 - 23)))) (Fin 0) (Fin 1) = Some v"
    "combinations binary64 (Fin (real 56)) (Fin (real 23)) = Some (Inr (Math_round v))"
    by blast
  moreover from this(1) run have "v = Fin (6334591568432401 / 2)"
    by simp
  ultimately have val: "combinations binary64 (Fin 56) (Fin 23) = Some (Inr (Fin 3167295784216201))"
    using run by simp
  have "combinations binary64 (Fin (real 23)) (Fin (real 56)) = Some (Inr (Fin 0))"
    using u by simp
  moreover have "combinations binary64 (Fin (real 56)) (Fin 0) = Some (Inr (Fin 1))"
    "combinations binary64 (Fin (real 56)) (Fin (real 56)) = Some (Inr (Fin 1))"
    using t by blast+
  ultimately show ?thesis
    using e run sym val by simp
qed

section \<open>Combinatorics: the loops where the rounding is exact\<close>

text \<open>
  Where the rounding is exact on the counters and at the values the loop meets, the
  loop of \<open>factorial\<close> returns \<open>n!\<close>, the loop of \<open>permutations\<close> returns \<open>n! / (n - r)!\<close>
  and \<open>combinations\<close> returns the binomial coefficient.
\<close>

lemma fact_loop_step:
  assumes "exact_naturals fl (Suc n)" "i \<le> n"
  shows "fact_loop fl (Fin (real n)) (Fin (real i)) res
       = fact_loop fl (Fin (real n)) (Fin (real (Suc i))) (jmul fl res (Fin (real i)))"
proof -
  have "fl (real i + 1) = Fin (real (Suc i))"
    using exact_naturalsD [OF assms(1), of "Suc i"] assms(2) by (simp add: add.commute)
  then show ?thesis
    using assms(2) by (subst fact_loop.simps) simp
qed

lemma fact_loop_stop: "fact_loop fl (Fin (real n)) (Fin (real (Suc n))) res = Some res"
  by (subst fact_loop.simps) simp

lemma fact_loop_exact:
  assumes "exact_naturals fl (Suc n)" "\<forall>k \<le> n. exact_at fl (fact k)"
  shows "1 \<le> i \<Longrightarrow> i \<le> Suc n \<Longrightarrow>
     fact_loop fl (Fin (real n)) (Fin (real i)) (Fin (fact (i - 1))) = Some (Fin (fact n))"
proof (induction "Suc n - i" arbitrary: i)
  case 0
  then have "i = Suc n" by simp
  then show ?case by (simp add: fact_loop_stop del: of_nat_Suc)
next
  case (Suc d)
  then have le: "i \<le> n" by simp
  have "fact (i - 1) * real i = (fact i :: real)"
    using Suc.prems(1) by (cases i) simp_all
  moreover have "fl (fact i) = Fin (fact i)"
    using assms(2) le by (simp add: exact_at_def)
  ultimately have "jmul fl (Fin (fact (i - 1))) (Fin (real i)) = Fin (fact (Suc i - 1))"
    by simp
  moreover have "Suc n - Suc i = d" "1 \<le> Suc i" "Suc i \<le> Suc n"
    using Suc.hyps(2) le by simp_all
  ultimately show ?case
    using Suc.hyps(1) [of "Suc i"] fact_loop_step [OF assms(1) le, of "Fin (fact (i - 1))"]
    by simp
qed

lemma factorial_exact:
  assumes "n \<le> 170" "exact_naturals fl (Suc n)" "\<forall>k \<le> n. exact_at fl (fact k)"
  shows "factorial fl (Fin (real n)) = Some (Inr (Fin (fact n)))"
proof -
  consider "n = 0" | "n = 1" | "2 \<le> n" by linarith
  then show ?thesis
  proof cases
    case 3
    have "fact_loop fl (Fin (real n)) (Fin (real 2)) (Fin (fact (2 - 1))) = Some (Fin (fact n))"
      using 3 by (intro fact_loop_exact [OF assms(2,3)]) simp_all
    then show ?thesis
      using 3 assms(1) by (simp add: factorial_def)
  qed (simp_all add: factorial_def)
qed

lemma perm_loop_step:
  assumes "exact_naturals fl n" "j < r" "r \<le> n"
  shows "perm_loop fl (Fin (real n)) (Fin (real r)) (Fin (real (n - j))) res
       = perm_loop fl (Fin (real n)) (Fin (real r)) (Fin (real (n - Suc j)))
           (jmul fl res (Fin (real (n - j))))"
proof -
  have "fl (real n - real r) = Fin (real (n - r))"
    using exact_naturalsD [OF assms(1), of "n - r"] assms(3) by (simp add: of_nat_diff)
  moreover have "n - r < n - j"
    using assms(2,3) by simp
  ultimately have test: "jless (jsub fl (Fin (real n)) (Fin (real r))) (Fin (real (n - j)))"
    by (simp only: jsub.simps jless.simps of_nat_less_iff)
  have "real (n - j) - 1 = real (n - Suc j)"
    using assms(2,3) by (simp add: of_nat_diff)
  then have "fl (real (n - j) - 1) = Fin (real (n - Suc j))"
    using exact_naturalsD [OF assms(1), of "n - Suc j"] by (simp only: diff_le_self)
  then have dec: "jsub fl (Fin (real (n - j))) (Fin 1) = Fin (real (n - Suc j))"
    by (simp only: jsub.simps)
  show ?thesis
    by (subst perm_loop.simps) (simp only: test if_True dec)
qed

lemma perm_loop_stop:
  assumes "exact_naturals fl n" "r \<le> n"
  shows "perm_loop fl (Fin (real n)) (Fin (real r)) (Fin (real (n - r))) res = Some res"
proof -
  have "fl (real n - real r) = Fin (real (n - r))"
    using exact_naturalsD [OF assms(1), of "n - r"] assms(2) by (simp add: of_nat_diff)
  then show ?thesis
    by (subst perm_loop.simps) simp
qed

lemma falling_step:
  assumes "j < n"
  shows "fact n / fact (n - j) * real (n - j) = (fact n / fact (n - Suc j) :: real)"
proof -
  have "n - j = Suc (n - Suc j)" using assms by simp
  then have "(fact (n - j) :: real) = real (n - j) * fact (n - Suc j)"
    by (metis fact_Suc)
  moreover have "a / (m * F) * m = a / F" if "m \<noteq> 0" for a m F :: real
    using that by simp
  moreover have "real (n - j) \<noteq> 0"
    using assms by simp
  ultimately show ?thesis
    by metis
qed

lemma perm_loop_exact:
  assumes "exact_naturals fl n" "r \<le> n" "\<forall>j \<le> r. exact_at fl (fact n / fact (n - j))"
  shows "j \<le> r \<Longrightarrow>
     perm_loop fl (Fin (real n)) (Fin (real r)) (Fin (real (n - j))) (Fin (fact n / fact (n - j)))
       = Some (Fin (fact n / fact (n - r)))"
proof (induction "r - j" arbitrary: j)
  case 0
  then have "j = r" by simp
  then show ?case by (simp add: perm_loop_stop [OF assms(1,2)])
next
  case (Suc d)
  then have lt: "j < r" "j < n" using assms(2) by simp_all
  have "fl (fact n / fact (n - Suc j)) = Fin (fact n / fact (n - Suc j))"
    using assms(3) lt(1) by (simp add: exact_at_def)
  then have "jmul fl (Fin (fact n / fact (n - j))) (Fin (real (n - j)))
      = Fin (fact n / fact (n - Suc j))"
    by (simp only: jmul.simps falling_step [OF lt(2)])
  moreover have "r - Suc j = d" "Suc j \<le> r"
    using Suc.hyps(2) lt by simp_all
  ultimately show ?case
    using Suc.hyps(1) [of "Suc j"]
      perm_loop_step [OF assms(1) lt(1) assms(2), of "Fin (fact n / fact (n - j))"]
    by simp
qed

lemma permutations_exact:
  assumes "r \<le> n" "exact_naturals fl n" "\<forall>j \<le> r. exact_at fl (fact n / fact (n - j))"
  shows "permutations fl (Fin (real n)) (Fin (real r)) = Some (Inr (Fin (fact n / fact (n - r))))"
proof (cases "r = 0")
  case True
  then show ?thesis by (simp add: permutations_def)
next
  case False
  have "perm_loop fl (Fin (real n)) (Fin (real r)) (Fin (real (n - 0))) (Fin (fact n / fact (n - 0)))
      = Some (Fin (fact n / fact (n - r)))"
    by (intro perm_loop_exact [OF assms(2,1,3)]) simp
  then show ?thesis
    using False assms(1) by (simp add: permutations_def)
qed

lemma binomial_step:
  assumes "i < n"
  shows "real (n choose i) * real (n - i) / real (Suc i) = real (n choose Suc i)"
proof -
  have "Suc i * (n choose Suc i) = (n - i) * (n choose i)"
    using binomial_absorption [of i n] binomial_absorb_comp [of n i] by simp
  then have "real (Suc i) * real (n choose Suc i) = real (n - i) * real (n choose i)"
    by (metis of_nat_mult)
  then show ?thesis
    by (simp add: field_simps)
qed

lemma comb_loop_exact:
  assumes "exact_naturals fl n" "k \<le> n"
    "\<forall>i < k. exact_at fl (real (n choose i) * real (n - i)) \<and> exact_at fl (real (n choose Suc i))"
  shows "i \<le> k \<Longrightarrow>
     comb_loop fl (Fin (real n)) (Fin (real k)) (Fin (real i)) (Fin (real (n choose i)))
       = Some (Fin (real (n choose k)))"
proof (induction "k - i" arbitrary: i)
  case 0
  then have "i = k" by simp
  then show ?case by (simp add: comb_loop_stop)
next
  case (Suc d)
  then have lt: "i < k" "i < n" using assms(2) by simp_all
  have e: "fl (real (n choose i) * real (n - i)) = Fin (real (n choose i) * real (n - i))"
    "fl (real (n choose Suc i)) = Fin (real (n choose Suc i))"
    using assms(3) lt(1) by (simp_all add: exact_at_def)
  have "jmul fl (Fin (real (n choose i))) (Fin (real (n - i)))
      = Fin (real (n choose i) * real (n - i))"
    by (simp only: jmul.simps e(1))
  moreover have "jdiv fl (Fin (real (n choose i) * real (n - i))) (Fin (real (Suc i)))
      = Fin (real (n choose Suc i))"
    using e(2) binomial_step [OF lt(2)] by (simp del: of_nat_Suc binomial_Suc_Suc)
  moreover have "k - Suc i = d" "Suc i \<le> k"
    using Suc.hyps(2) lt by simp_all
  ultimately show ?case
    using Suc.hyps(1) [of "Suc i"]
      comb_loop_step [OF assms(1) lt(1) assms(2), of "Fin (real (n choose i))"]
    by simp
qed

lemma Math_round_nat: "Math_round (Fin (real m)) = Fin (real m)"
proof -
  have "\<lfloor>real m + 1 / 2\<rfloor> = int m"
    by linarith
  then show ?thesis by simp
qed

lemma combinations_exact:
  assumes "r \<le> n" "exact_naturals fl n"
    "\<forall>i < min r (n - r).
        exact_at fl (real (n choose i) * real (n - i)) \<and> exact_at fl (real (n choose Suc i))"
  shows "combinations fl (Fin (real n)) (Fin (real r)) = Some (Inr (Fin (real (n choose r))))"
proof -
  consider "r = 0" | "r = n" | "0 < r" "r < n" using assms(1) by linarith
  then show ?thesis
  proof cases
    case 3
    define k where "k = min r (n - r)"
    have k: "k \<le> n" "n choose k = n choose r"
      using 3 binomial_symmetric [of r n] by (auto simp: k_def min_def)
    have "comb_loop fl (Fin (real n)) (Fin (real k)) (Fin (real 0)) (Fin (real (n choose 0)))
        = Some (Fin (real (n choose k)))"
      using assms(3) by (intro comb_loop_exact [OF assms(2) k(1)]) (simp_all add: k_def)
    then show ?thesis
      using combinations_unfold [OF assms(2) 3] k(2)
      by (simp add: k_def Math_round_nat del: Math_round.simps)
  qed (simp_all add: combinations_def)
qed

section \<open>Combinatorics: the statistics module and the math engine\<close>

lemma valid_is_natural:
  assumes "\<not> (jless x (Fin 0) \<or> \<not> isInteger x)"
  shows "\<exists>n. x = Fin (real n)"
proof (cases x)
  case (Fin a)
  then have "isInteger (Fin a)" and a0: "0 \<le> a" using assms by simp_all
  then have "of_int \<lfloor>a\<rfloor> = a" by (simp only: isInteger.simps)
  moreover have "real (nat \<lfloor>a\<rfloor>) = of_int \<lfloor>a\<rfloor>"
    using a0 by simp
  ultimately have "a = real (nat \<lfloor>a\<rfloor>)" by (simp only:)
  then show ?thesis using Fin by blast
qed (use assms in simp_all)

lemma factorial_raises:
  "(\<exists>m. factorial fl x = Some (Inl m)) \<longleftrightarrow> jless x (Fin 0) \<or> \<not> isInteger x"
  by (auto simp: factorial_def)

lemma permutations_raises:
  "(\<exists>m. permutations fl x y = Some (Inl m))
     \<longleftrightarrow> jless x (Fin 0) \<or> jless y (Fin 0) \<or> \<not> isInteger x \<or> \<not> isInteger y"
  by (auto simp: permutations_def)

lemma combinations_raises:
  "(\<exists>m. combinations fl x y = Some (Inl m))
     \<longleftrightarrow> jless x (Fin 0) \<or> jless y (Fin 0) \<or> \<not> isInteger x \<or> \<not> isInteger y"
  by (auto simp: combinations_def Let_def)

lemma engine_factorial_raises:
  assumes "library_returns lib"
  shows "(\<exists>m. engine_factorial lib x = Inl m) \<longleftrightarrow> jless x (Fin 0) \<or> \<not> isInteger x"
proof (cases "jless x (Fin 0) \<or> \<not> isInteger x")
  case True
  then show ?thesis by (auto simp: engine_factorial_def)
next
  case False
  then obtain n where n: "x = Fin (real n)" using valid_is_natural by blast
  have "\<not> isl (math_factorial lib (Fin (real n)))" if "n \<le> 170"
    using assms that by (simp add: library_returns_def)
  then have "\<not> isl (engine_factorial lib x)"
    by (simp add: engine_factorial_def n)
  then show ?thesis
    using False by (auto simp: isl_def)
qed

lemma engine_pair_raises:
  assumes "library_returns lib"
  shows "(\<exists>m. engine_permutations lib x y = Inl m)
           \<longleftrightarrow> jless x (Fin 0) \<or> jless y (Fin 0) \<or> \<not> isInteger x \<or> \<not> isInteger y"
    and "(\<exists>m. engine_combinations lib x y = Inl m)
           \<longleftrightarrow> jless x (Fin 0) \<or> jless y (Fin 0) \<or> \<not> isInteger x \<or> \<not> isInteger y"
proof -
  let ?bad = "jless x (Fin 0) \<or> jless y (Fin 0) \<or> \<not> isInteger x \<or> \<not> isInteger y"
  have "\<not> isl (engine_permutations lib x y) \<and> \<not> isl (engine_combinations lib x y)" if "\<not> ?bad"
  proof -
    have "\<not> (jless x (Fin 0) \<or> \<not> isInteger x)" "\<not> (jless y (Fin 0) \<or> \<not> isInteger y)"
      using that by blast+
    then obtain n r where nr: "x = Fin (real n)" "y = Fin (real r)"
      using valid_is_natural [of x] valid_is_natural [of y] by blast
    have "\<not> isl (math_permutations lib (Fin (real n)) (Fin (real r)))
        \<and> \<not> isl (math_combinations lib (Fin (real n)) (Fin (real r)))" if "r \<le> n"
      using assms that by (simp add: library_returns_def)
    then show ?thesis
      by (simp add: engine_permutations_def engine_combinations_def nr)
  qed
  then show "(\<exists>m. engine_permutations lib x y = Inl m) \<longleftrightarrow> ?bad"
    and "(\<exists>m. engine_combinations lib x y = Inl m) \<longleftrightarrow> ?bad"
    by (auto simp: isl_def engine_permutations_def engine_combinations_def)
qed

lemma library_returns_sample: "library_returns sample_mathjs"
  by (simp add: library_returns_def sample_mathjs_def)

text \<open>
  Claim C10.  The two implementations of factorial, permutations and combinations raise
  under the same condition, a negative or non-integer argument: the statistics module
  for every rounding, the math engine when the library returns on the arguments passed
  on to it.  On non-negative integers \<open>n\<close> and \<open>r\<close> (\<open>r \<le> n\<close>, and \<open>n \<le> 170\<close> for factorial)
  the two return equal values wherever the library returns the mathematical value
  (\<open>n!\<close>, \<open>n! / (n - r)!\<close>, the binomial coefficient) and the rounding is exact on the
  counters and at the values the loop of the statistics module meets.  Beyond the
  guards (\<open>n > 170\<close> for factorial, \<open>r > n\<close>) both return \<open>Infinity\<close>, respectively \<open>0\<close>.
\<close>

theorem implementations_agree:
  "((\<exists>m. factorial fl x = Some (Inl m)) \<longleftrightarrow> jless x (Fin 0) \<or> \<not> isInteger x)
   \<and> ((\<exists>m. permutations fl x y = Some (Inl m))
        \<longleftrightarrow> jless x (Fin 0) \<or> jless y (Fin 0) \<or> \<not> isInteger x \<or> \<not> isInteger y)
   \<and> ((\<exists>m. combinations fl x y = Some (Inl m))
        \<longleftrightarrow> jless x (Fin 0) \<or> jless y (Fin 0) \<or> \<not> isInteger x \<or> \<not> isInteger y)
   \<and> (library_returns lib \<longrightarrow>
        ((\<exists>m. engine_factorial lib x = Inl m) \<longleftrightarrow> jless x (Fin 0) \<or> \<not> isInteger x)
        \<and> ((\<exists>m. engine_permutations lib x y = Inl m)
             \<longleftrightarrow> jless x (Fin 0) \<or> jless y (Fin 0) \<or> \<not> isInteger x \<or> \<not> isInteger y)
        \<and> ((\<exists>m. engine_combinations lib x y = Inl m)
             \<longleftrightarrow> jless x (Fin 0) \<or> jless y (Fin 0) \<or> \<not> isInteger x \<or> \<not> isInteger y))
   \<and> (n \<le> 170 \<and> math_factorial lib (Fin (real n)) = Inr (Fin (fact n))
        \<and> exact_naturals fl (Suc n) \<and> (\<forall>k \<le> n. exact_at fl (fact k))
        \<longrightarrow> factorial fl (Fin (real n)) = Some (engine_factorial lib (Fin (real n))))
   \<and> (r \<le> n \<and> math_permutations lib (Fin (real n)) (Fin (real r)) = Inr (Fin (fact n / fact (n - r)))
        \<and> exact_naturals fl n \<and> (\<forall>j \<le> r. exact_at fl (fact n / fact (n - j)))
        \<longrightarrow> permutations fl (Fin (real n)) (Fin (real r))
              = Some (engine_permutations lib (Fin (real n)) (Fin (real r))))
   \<and> (r \<le> n \<and> math_combinations lib (Fin (real n)) (Fin (real r)) = Inr (Fin (real (n choose r)))
        \<and> exact_naturals fl n
        \<and> (\<forall>i < min r (n - r). exact_at fl (real (n choose i) * real (n - i))
                                \<and> exact_at fl (real (n choose Suc i)))
        \<longrightarrow> combinations fl (Fin (real n)) (Fin (real r))
              = Some (engine_combinations lib (Fin (real n)) (Fin (real r))))
   \<and> (170 < n \<longrightarrow> factorial fl (Fin (real n)) = Some (engine_factorial lib (Fin (real n))))
   \<and> (n < r \<longrightarrow> permutations fl (Fin (real n)) (Fin (real r))
                    = Some (engine_permutations lib (Fin (real n)) (Fin (real r)))
                \<and> combinations fl (Fin (real n)) (Fin (real r))
                    = Some (engine_combinations lib (Fin (real n)) (Fin (real r))))"
proof (intro conjI impI)
  assume "n \<le> 170 \<and> math_factorial lib (Fin (real n)) = Inr (Fin (fact n))
        \<and> exact_naturals fl (Suc n) \<and> (\<forall>k \<le> n. exact_at fl (fact k))"
  then show "factorial fl (Fin (real n)) = Some (engine_factorial lib (Fin (real n)))"
    using factorial_exact [of n fl] by (simp add: engine_factorial_def)
next
  assume "r \<le> n \<and> math_permutations lib (Fin (real n)) (Fin (real r)) = Inr (Fin (fact n / fact (n - r)))
        \<and> exact_naturals fl n \<and> (\<forall>j \<le> r. exact_at fl (fact n / fact (n - j)))"
  then show "permutations fl (Fin (real n)) (Fin (real r))
      = Some (engine_permutations lib (Fin (real n)) (Fin (real r)))"
    using permutations_exact [of r n fl] by (simp add: engine_permutations_def)
next
  assume "r \<le> n \<and> math_combinations lib (Fin (real n)) (Fin (real r)) = Inr (Fin (real (n choose r)))
        \<and> exact_naturals fl n
        \<and> (\<forall>i < min r (n - r). exact_at fl (real (n choose i) * real (n - i))
                                \<and> exact_at fl (real (n choose Suc i)))"
  then have h: "r \<le> n" "exact_naturals fl n"
    "\<forall>i < min r (n - r). exact_at fl (real (n choose i) * real (n - i))
                                \<and> exact_at fl (real (n choose Suc i))"
    and l: "math_combinations lib (Fin (real n)) (Fin (real r)) = Inr (Fin (real (n choose r)))"
    by blast+
  show "combinations fl (Fin (real n)) (Fin (real r))
      = Some (engine_combinations lib (Fin (real n)) (Fin (real r)))"
    using h(1) by (simp add: combinations_exact [OF h] engine_combinations_def l)
next
  assume "170 < n"
  then show "factorial fl (Fin (real n)) = Some (engine_factorial lib (Fin (real n)))"
    by (simp add: factorial_def engine_factorial_def)
next
  assume "n < r"
  then show "permutations fl (Fin (real n)) (Fin (real r))
      = Some (engine_permutations lib (Fin (real n)) (Fin (real r)))"
    and "combinations fl (Fin (real n)) (Fin (real r))
      = Some (engine_combinations lib (Fin (real n)) (Fin (real r)))"
    by (simp_all add: permutations_def engine_permutations_def combinations_def
        engine_combinations_def)
qed (simp_all only: factorial_raises permutations_raises combinations_raises
      engine_factorial_raises engine_pair_raises)

theorem implementations_agree_witness:
  "library_returns sample_mathjs
   \<and> (\<exists>m. factorial binary64 (Fin (- 1)) = Some (Inl m))
   \<and> (\<exists>m. engine_factorial sample_mathjs (Fin (- 1)) = Inl m)
   \<and> (\<exists>m. permutations binary64 (Fin (- 1)) (Fin (1 / 2)) = Some (Inl m))
   \<and> (\<exists>m. engine_permutations sample_mathjs (Fin (- 1)) (Fin (1 / 2)) = Inl m)
   \<and> (\<exists>m. combinations binary64 (Fin (- 1)) (Fin (1 / 2)) = Some (Inl m))
   \<and> (\<exists>m. engine_combinations sample_mathjs (Fin (- 1)) (Fin (1 / 2)) = Inl m)
   \<and> factorial binary64 (Fin 5) = Some (engine_factorial sample_mathjs (Fin 5))
   \<and> engine_factorial sample_mathjs (Fin 5) = Inr (Fin 120)
   \<and> permutations binary64 (Fin 5) (Fin 2) = Some (engine_permutations sample_mathjs (Fin 5) (Fin 2))
   \<and> engine_permutations sample_mathjs (Fin 5) (Fin 2) = Inr (Fin 20)
   \<and> combinations binary64 (Fin 5) (Fin 2) = Some (engine_combinations sample_mathjs (Fin 5) (Fin 2))
   \<and> engine_combinations sample_mathjs (Fin 5) (Fin 2) = Inr (Fin 10)"
proof -
  note t = implementations_agree [where fl = binary64 and lib = sample_mathjs
      and x = "Fin (- 1)" and y = "Fin (1 / 2)" and n = 5 and r = 2]
  have bad: "jless (Fin (- 1)) (Fin 0) \<or> \<not> isInteger (Fin (- 1))"
    "jless (Fin (- 1)) (Fin 0) \<or> jless (Fin (1 / 2)) (Fin 0)
       \<or> \<not> isInteger (Fin (- 1)) \<or> \<not> isInteger (Fin (1 / 2))"
    by simp_all
  have en: "exact_naturals binary64 (Suc 5)" "exact_naturals binary64 5"
    by (rule exact_naturals_binary64, simp)+
  have ef: "\<forall>k \<le> 5. exact_at binary64 (fact k)"
  proof (intro allI impI)
    fix k :: nat
    assume "k \<le> 5"
    then have "(fact k :: nat) \<le> fact 5"
      by (rule fact_mono)
    also have "\<dots> \<le> 2 ^ 53"
      by (simp add: fact_numeral)
    finally have "exact_at binary64 (real (fact k))"
      by (rule exact_at_binary64_nat)
    then show "exact_at binary64 (fact k)"
      by simp
  qed
  have ep: "\<forall>j \<le> 2. exact_at binary64 (fact 5 / fact (5 - j))"
  proof (intro allI impI)
    fix j :: nat
    assume "j \<le> 2"
    then consider "j = 0" | "j = 1" | "j = 2" by linarith
    then show "exact_at binary64 (fact 5 / fact (5 - j))"
      by cases (simp_all add: exact_at_def binary64_eval fact_numeral)
  qed
  have ch: "(5::nat) choose 2 = 10"
    by (simp add: eval_nat_numeral)
  have ec: "\<forall>i < min 2 (5 - 2). exact_at binary64 (real (5 choose i) * real (5 - i))
      \<and> exact_at binary64 (real (5 choose Suc i))"
  proof (intro allI impI conjI)
    fix i :: nat
    have c: "(5::nat) choose m \<le> 2 ^ 5" for m
      by (rule binomial_le_pow2)
    have "(5 choose i) * (5 - i) \<le> 2 ^ 5 * (5::nat)"
      by (rule mult_mono [OF c]) simp_all
    then have "(5 choose i) * (5 - i) \<le> (2::nat) ^ 53"
      by simp
    then have "exact_at binary64 (real ((5 choose i) * (5 - i)))"
      by (rule exact_at_binary64_nat)
    then show "exact_at binary64 (real (5 choose i) * real (5 - i))"
      by (simp only: of_nat_mult)
    have "(5::nat) choose Suc i \<le> 2 ^ 53"
      using c [of "Suc i"] by simp
    then show "exact_at binary64 (real (5 choose Suc i))"
      by (rule exact_at_binary64_nat)
  qed
  have lib: "math_factorial sample_mathjs (Fin (real 5)) = Inr (Fin (fact 5))"
    "math_permutations sample_mathjs (Fin (real 5)) (Fin (real 2)) = Inr (Fin (fact 5 / fact (5 - 2)))"
    "math_combinations sample_mathjs (Fin (real 5)) (Fin (real 2)) = Inr (Fin (real (5 choose 2)))"
    by (simp_all add: sample_mathjs_def)
  have v: "engine_factorial sample_mathjs (Fin 5) = Inr (Fin 120)"
    "engine_permutations sample_mathjs (Fin 5) (Fin 2) = Inr (Fin 20)"
    "engine_combinations sample_mathjs (Fin 5) (Fin 2) = Inr (Fin 10)"
    by (simp_all add: engine_factorial_def engine_permutations_def engine_combinations_def
        sample_mathjs_def fact_numeral ch)
  note c1 = t [THEN conjunct1]
  note c2 = t [THEN conjunct2, THEN conjunct1]
  note c3 = t [THEN conjunct2, THEN conjunct2, THEN conjunct1]
  note c4 = t [THEN conjunct2, THEN conjunct2, THEN conjunct2, THEN conjunct1, THEN mp,
      OF library_returns_sample]
  note c5 = t [THEN conjunct2, THEN conjunct2, THEN conjunct2, THEN conjunct2, THEN conjunct1]
  note c6 = t [THEN conjunct2, THEN conjunct2, THEN conjunct2, THEN conjunct2, THEN conjunct2,
      THEN conjunct1]
  note c7 = t [THEN conjunct2, THEN conjunct2, THEN conjunct2, THEN conjunct2, THEN conjunct2,
      THEN conjunct2, THEN conjunct1]
  have f: "factorial binary64 (Fin (real 5)) = Some (engine_factorial sample_mathjs (Fin (real 5)))"
    by (rule c5 [THEN mp]) (intro conjI lib(1) en(1) ef, simp)
  have p: "permutations binary64 (Fin (real 5)) (Fin (real 2))
      = Some (engine_permutations sample_mathjs (Fin (real 5)) (Fin (real 2)))"
    by (rule c6 [THEN mp]) (intro conjI lib(2) en(2) ep, simp)
  have c: "combinations binary64 (Fin (real 5)) (Fin (real 2))
      = Some (engine_combinations sample_mathjs (Fin (real 5)) (Fin (real 2)))"
    by (rule c7 [THEN mp]) (intro conjI lib(3) en(2) ec, simp)
  have r: "\<exists>m. factorial binary64 (Fin (- 1)) = Some (Inl m)"
    "\<exists>m. permutations binary64 (Fin (- 1)) (Fin (1 / 2)) = Some (Inl m)"
    "\<exists>m. combinations binary64 (Fin (- 1)) (Fin (1 / 2)) = Some (Inl m)"
    by (simp_all only: c1 c2 c3 bad)
  have q: "\<exists>m. engine_factorial sample_mathjs (Fin (- 1)) = Inl m"
    "\<exists>m. engine_permutations sample_mathjs (Fin (- 1)) (Fin (1 / 2)) = Inl m"
    "\<exists>m. engine_combinations sample_mathjs (Fin (- 1)) (Fin (1 / 2)) = Inl m"
    by (simp_all only: c4 bad)
  have five: "Fin (real 5) = Fin 5" "Fin (real 2) = Fin 2"
    by simp_all
  show ?thesis
    using f p c by (simp only: five library_returns_sample r q v simp_thms)
qed


section \<open>Descriptive statistics: the mode\<close>

lemma map_of_map_set: "map_of (map_set cs k v) = (map_of cs)(k \<mapsto> v)"
  by (induction cs) (auto simp: fun_upd_twist)

lemma keys_of_map_set:
  "map fst (map_set cs k v) = (if k \<in> set (map fst cs) then map fst cs else map fst cs @ [k])"
proof (induction cs)
  case Nil
  then show ?case by simp
next
  case (Cons p cs)
  obtain k' v' where p: "p = (k', v')" by (cases p)
  show ?case
  proof (cases "k' = k")
    case True
    with p show ?thesis by simp
  next
    case False
    with p Cons.IH show ?thesis by simp
  qed
qed

lemma keys_map_set: "fst ` set (map_set cs k v) = insert k (fst ` set cs)"
proof -
  have "set (map fst (map_set cs k v)) = insert k (set (map fst cs))"
    by (simp only: keys_of_map_set) auto
  then show ?thesis by simp
qed

lemma distinct_map_set: "distinct (map fst cs) \<Longrightarrow> distinct (map fst (map_set cs k v))"
  by (simp only: keys_of_map_set) simp

text \<open>The loop invariant: after the prefix \<open>pre\<close> the map holds the occurrence counts
  of \<open>pre\<close> and \<open>m\<close> is the largest of them.\<close>

lemma count_loop_invariant:
  assumes "distinct (map fst counts)"
    and "fst ` set counts = set pre"
    and "\<forall>k\<in>set pre. map_of counts k = Some (count_list pre k)"
    and "\<forall>k\<in>set pre. count_list pre k \<le> m"
    and "if pre = [] then m = 0 else \<exists>k\<in>set pre. count_list pre k = m"
  shows "case count_loop vs (counts, m) of (counts', m') \<Rightarrow>
           distinct (map fst counts')
         \<and> fst ` set counts' = set (pre @ vs)
         \<and> (\<forall>k\<in>set (pre @ vs). map_of counts' k = Some (count_list (pre @ vs) k))
         \<and> (\<forall>k\<in>set (pre @ vs). count_list (pre @ vs) k \<le> m')
         \<and> (if pre @ vs = [] then m' = 0 else \<exists>k\<in>set (pre @ vs). count_list (pre @ vs) k = m')"
  using assms
proof (induction vs arbitrary: pre counts m)
  case Nil
  then show ?case by simp
next
  case (Cons v vs)
  define c where "c = map_get_or_0 counts v + 1"
  have get: "map_get_or_0 counts v = count_list pre v"
  proof (cases "v \<in> set pre")
    case True
    with Cons.prems(3) show ?thesis by (simp add: map_get_or_0_def)
  next
    case False
    then have "v \<notin> fst ` set counts" using Cons.prems(2) by simp
    then have "map_of counts v = None" by (simp add: map_of_eq_None_iff)
    with False show ?thesis by (simp add: map_get_or_0_def)
  qed
  then have c: "c = count_list (pre @ [v]) v" by (simp add: c_def)
  have 1: "distinct (map fst (map_set counts v c))"
    using Cons.prems(1) by (rule distinct_map_set)
  have 2: "fst ` set (map_set counts v c) = set (pre @ [v])"
    using Cons.prems(2) by (simp add: keys_map_set)
  have 3: "\<forall>k\<in>set (pre @ [v]). map_of (map_set counts v c) k = Some (count_list (pre @ [v]) k)"
    using Cons.prems(3) c by (auto simp: map_of_map_set)
  have 4: "\<forall>k\<in>set (pre @ [v]). count_list (pre @ [v]) k \<le> max m c"
  proof
    fix k assume k: "k \<in> set (pre @ [v])"
    show "count_list (pre @ [v]) k \<le> max m c"
    proof (cases "k = v")
      case True
      then show ?thesis using c by simp
    next
      case False
      then have "k \<in> set pre" using k by simp
      then have "count_list pre k \<le> m" using Cons.prems(4) by simp
      with False show ?thesis by simp
    qed
  qed
  have 5: "if pre @ [v] = [] then max m c = 0
           else \<exists>k\<in>set (pre @ [v]). count_list (pre @ [v]) k = max m c"
  proof (cases "m \<le> c")
    case True
    then have "max m c = c" by simp
    then show ?thesis using c by auto
  next
    case False
    then have mc: "max m c = m" and "m \<noteq> 0" by simp_all
    then have "pre \<noteq> []" using Cons.prems(5) by auto
    then obtain k where k: "k \<in> set pre" "count_list pre k = m"
      using Cons.prems(5) by auto
    have "k \<noteq> v"
    proof
      assume "k = v"
      then have "c = m + 1" using k get by (simp add: c_def)
      with False show False by simp
    qed
    then show ?thesis using k mc by auto
  qed
  have "count_loop (v # vs) (counts, m) = count_loop vs (map_set counts v c, max m c)"
    by (simp add: c_def Let_def)
  moreover note Cons.IH [OF 1 2 3 4 5]
  ultimately show ?case by simp
qed

lemma distinct_iff_count: "distinct xs \<longleftrightarrow> (\<forall>x\<in>set xs. count_list xs x = 1)"
  by (induction xs) (auto simp: count_list_0_iff)

lemma sort_distinct_eq: "distinct xs \<Longrightarrow> sort xs = sorted_list_of_set (set xs)"
  by (simp add: sorted_list_of_set_sort_remdups distinct_remdups_id)

lemma calculateMode_nonempty:
  assumes "vs \<noteq> []"
  shows "calculateMode vs =
     (if (\<forall>v\<in>set vs. count_list vs v = 1) \<and> length vs > 1 then []
      else sorted_list_of_set {v \<in> set vs. \<forall>w\<in>set vs. count_list vs w \<le> count_list vs v})"
proof -
  obtain counts m where run: "count_loop vs ([], 0) = (counts, m)"
    by (cases "count_loop vs ([], 0)")
  have inv: "distinct (map fst counts)" "fst ` set counts = set vs"
    "\<forall>k\<in>set vs. map_of counts k = Some (count_list vs k)"
    "\<forall>k\<in>set vs. count_list vs k \<le> m"
    "\<exists>k\<in>set vs. count_list vs k = m"
    using count_loop_invariant [of "[]" "[]" 0 vs] run assms by simp_all
  have pairs: "(v, c) \<in> set counts \<longleftrightarrow> v \<in> set vs \<and> c = count_list vs v" for v c
  proof
    assume a: "(v, c) \<in> set counts"
    then have "v \<in> set vs" using inv(2) by force
    moreover have "map_of counts v = Some c" using a inv(1) by simp
    ultimately show "v \<in> set vs \<and> c = count_list vs v" using inv(3) by simp
  next
    assume "v \<in> set vs \<and> c = count_list vs v"
    then have "map_of counts v = Some c" using inv(3) by simp
    then show "(v, c) \<in> set counts" by (rule map_of_SomeD)
  qed
  have m1: "m = 1 \<longleftrightarrow> (\<forall>v\<in>set vs. count_list vs v = 1)"
  proof
    assume "m = 1"
    show "\<forall>v\<in>set vs. count_list vs v = 1"
    proof
      fix v assume v: "v \<in> set vs"
      then have "count_list vs v \<le> 1" using inv(4) \<open>m = 1\<close> by simp
      moreover have "count_list vs v \<noteq> 0" using v by (simp add: count_list_0_iff)
      ultimately show "count_list vs v = 1" by simp
    qed
  next
    assume "\<forall>v\<in>set vs. count_list vs v = 1"
    then show "m = 1" using inv(5) by auto
  qed
  have sel: "set (map fst (filter (\<lambda>(value, count). count = m) counts))
      = {v \<in> set vs. \<forall>w\<in>set vs. count_list vs w \<le> count_list vs v}" (is "?L = ?R")
  proof (intro set_eqI iffI)
    fix v assume "v \<in> ?L"
    then have "(v, m) \<in> set counts" by auto
    then have "v \<in> set vs" "count_list vs v = m" using pairs by simp_all
    then show "v \<in> ?R" using inv(4) by simp
  next
    fix v assume "v \<in> ?R"
    then have v: "v \<in> set vs" and top: "\<forall>w\<in>set vs. count_list vs w \<le> count_list vs v" by simp_all
    obtain k where "k \<in> set vs" "count_list vs k = m" using inv(5) by auto
    then have "m \<le> count_list vs v" using top by auto
    moreover have "count_list vs v \<le> m" using inv(4) v by simp
    ultimately have "(v, m) \<in> set counts" using pairs v by simp
    then show "v \<in> ?L" by force
  qed
  have "distinct (map fst (filter (\<lambda>(value, count). count = m) counts))"
    using inv(1) by (rule distinct_map_filter)
  then have "sort (map fst (filter (\<lambda>(value, count). count = m) counts))
      = sorted_list_of_set {v \<in> set vs. \<forall>w\<in>set vs. count_list vs w \<le> count_list vs v}"
    using sel by (simp only: sort_distinct_eq)
  then show ?thesis
    using assms run m1 by (simp add: calculateMode_def)
qed

text \<open>
  Claim C6.  \<open>calculateMode\<close> returns exactly the values that achieve the maximum
  occurrence count, in ascending order; when every value occurs exactly once and the
  sequence has more than one element the result is empty; a single-element sequence
  yields that element.
\<close>

theorem calculateMode_spec:
  "((\<forall>v\<in>set vs. count_list vs v = 1) \<and> length vs > 1 \<longrightarrow> calculateMode vs = [])
   \<and> (\<not> ((\<forall>v\<in>set vs. count_list vs v = 1) \<and> length vs > 1) \<longrightarrow>
        calculateMode vs
          = sorted_list_of_set {v \<in> set vs. \<forall>w\<in>set vs. count_list vs w \<le> count_list vs v})
   \<and> calculateMode [x] = [x]"
proof (cases "vs = []")
  case True
  then show ?thesis by (simp add: calculateMode_def map_get_or_0_def)
next
  case False
  have "calculateMode [x] = [x]"
    by (simp add: calculateMode_def map_get_or_0_def)
  then show ?thesis using calculateMode_nonempty [OF False] by simp
qed

lemma calculateMode_example: "calculateMode [1, 2, 2, 3] = [2]"
  by (simp add: calculateMode_def map_get_or_0_def)

theorem calculateMode_spec_witness:
  "calculateMode [1, 2, 3] = [] \<and> calculateMode [1, 2, 2, 3] = [2] \<and> calculateMode [7] = [7]"
proof -
  have h1: "(\<forall>v\<in>set [1, 2, 3 :: real]. count_list [1, 2, 3] v = 1) \<and> length [1, 2, 3 :: real] > 1"
    by simp
  have h2: "\<not> ((\<forall>v\<in>set [1, 2, 2, 3 :: real]. count_list [1, 2, 2, 3] v = 1)
          \<and> length [1, 2, 2, 3 :: real] > 1)"
    by simp
  have "{v \<in> set [1, 2, 2, 3 :: real].
          \<forall>w\<in>set [1, 2, 2, 3 :: real].
             count_list [1, 2, 2, 3 :: real] w \<le> count_list [1, 2, 2, 3 :: real] v} = {2}"
    by auto
  then have r: "sorted_list_of_set {v \<in> set [1, 2, 2, 3 :: real].
          \<forall>w\<in>set [1, 2, 2, 3 :: real].
             count_list [1, 2, 2, 3 :: real] w \<le> count_list [1, 2, 2, 3 :: real] v} = [2]"
    by simp
  have "calculateMode [1, 2, 3] = []"
    using calculateMode_spec [of "[1, 2, 3]" 0] h1 by blast
  moreover have "calculateMode [1, 2, 2, 3] = [2]"
    using calculateMode_spec [of "[1, 2, 2, 3]" 0] h2 r by presburger
  moreover have "calculateMode [7] = [7]"
    using calculateMode_spec [of "[]" 7] by blast
  ultimately show ?thesis
    by blast
qed


section \<open>Descriptive statistics: the summary\<close>

lemma calculateMedian_reads_in_range:
  assumes "values \<noteq> []"
  shows "length (sort values) div 2 < length (sort values)"
    and "length (sort values) mod 2 = 0 \<Longrightarrow> length (sort values) div 2 - 1 < length (sort values)"
  using assms by (simp_all add: length_greater_0_conv [symmetric] del: length_greater_0_conv)

text \<open>
  Claim C7.  The summary of \<open>calculateStatistics\<close> has \<open>count\<close> equal to the length of the
  input, and on the empty sequence every numeric field is 0 and the mode is empty.  The
  functions of the module are total here: the source has no \<open>throw\<close>, every \<open>reduce\<close> is
  given its initial value, and no index is read on the empty path; the two sample
  functions, which the summary does not use, return 0 on the empty sequence as well.
\<close>

theorem calculateStatistics_count_and_empty:
  "sd_count (calculateStatistics vs) = length vs
   \<and> calculateStatistics [] =
       \<lparr> sd_values = [], sd_mean = 0, sd_median = 0, sd_mode = [], sd_stdDev = 0,
         sd_variance = 0, sd_sum = 0, sd_count = 0 \<rparr>
   \<and> calculateSampleVariance [] = 0 \<and> calculateSampleStdDev [] = 0"
  by (simp add: calculateStatistics_def calculateMean_def calculateMedian_def calculateMode_def
      calculateStdDev_def calculateVariance_def calculateSum_def calculateSampleVariance_def
      calculateSampleStdDev_def)



section \<open>Probability: the inverse normal CDF\<close>

lemma tail_rational_src:
  "(((((coeff_c ! 0 * q + coeff_c ! 1) * q + coeff_c ! 2) * q + coeff_c ! 3) * q
       + coeff_c ! 4) * q + coeff_c ! 5) /
   ((((coeff_d ! 0 * q + coeff_d ! 1) * q + coeff_d ! 2) * q + coeff_d ! 3) * q + 1)
   = tail_rational q"
  by (simp add: tail_rational_def coeff_c_def coeff_d_def)

lemma central_rational_src:
  "((((((coeff_a ! 0 * (q * q) + coeff_a ! 1) * (q * q) + coeff_a ! 2) * (q * q)
        + coeff_a ! 3) * (q * q) + coeff_a ! 4) * (q * q) + coeff_a ! 5) * q) /
   (((((coeff_b ! 0 * (q * q) + coeff_b ! 1) * (q * q) + coeff_b ! 2) * (q * q)
        + coeff_b ! 3) * (q * q) + coeff_b ! 4) * (q * q) + 1)
   = central_rational q"
  by (simp add: central_rational_def coeff_a_def coeff_b_def Let_def)

lemma normalInverseCDF_in_domain:
  assumes "0 < p" "p < 1"
  shows "normalInverseCDF p mean stdDev = Inr (standard_quantile p * stdDev + mean)"
proof -
  have dom: "(p \<le> 0 \<or> p \<ge> 1) = False"
    using assms by simp
  consider "p < 0.02425" | "\<not> p < 0.02425" "p \<le> 1 - 0.02425" | "\<not> p < 0.02425" "\<not> p \<le> 1 - 0.02425"
    by blast
  then show ?thesis
  proof cases
    case 1
    then have c: "(p < 0.02425) = True" by simp
    show ?thesis
      by (simp only: normalInverseCDF_def standard_quantile_def Let_def dom c if_True if_False
          tail_rational_src)
  next
    case 2
    then have c: "(p < 0.02425) = False" "(p \<le> 1 - 0.02425) = True" "(p > 1 - 0.02425) = False"
      by simp_all
    show ?thesis
      by (simp only: normalInverseCDF_def standard_quantile_def Let_def dom c if_True if_False
          central_rational_src)
  next
    case 3
    then have c: "(p < 0.02425) = False" "(p \<le> 1 - 0.02425) = False" "(p > 1 - 0.02425) = True"
      by simp_all
    show ?thesis
      by (simp only: normalInverseCDF_def standard_quantile_def Let_def dom c if_True if_False
          minus_divide_left [symmetric] tail_rational_src)
  qed
qed

text \<open>
  Claim C8.  \<open>normalInverseCDF p mean stdDev\<close> raises exactly when \<open>p \<le> 0\<close> or \<open>p \<ge> 1\<close>.
  For \<open>p\<close> strictly between 0 and 1 it returns \<open>z * stdDev + mean\<close>, where \<open>z\<close> comes from
  the lower-tail rational branch when \<open>p < 0.02425\<close>, from the sign-flipped upper-tail
  branch when \<open>p > 1 - 0.02425\<close>, and from the central rational branch in \<open>q = p - 0.5\<close>
  otherwise.
\<close>

theorem normalInverseCDF_domain_and_value:
  "(isl (normalInverseCDF p mean stdDev) \<longleftrightarrow> p \<le> 0 \<or> p \<ge> 1)
   \<and> (0 < p \<and> p < 1 \<longrightarrow>
        normalInverseCDF p mean stdDev = Inr (standard_quantile p * stdDev + mean))"
proof (intro conjI impI)
  show "isl (normalInverseCDF p mean stdDev) \<longleftrightarrow> p \<le> 0 \<or> p \<ge> 1"
    by (simp add: normalInverseCDF_def Let_def)
next
  assume "0 < p \<and> p < 1"
  then show "normalInverseCDF p mean stdDev = Inr (standard_quantile p * stdDev + mean)"
    using normalInverseCDF_in_domain by simp
qed

theorem normalInverseCDF_domain_and_value_witness:
  "(0::real) < 1/2 \<and> (1/2::real) < 1 \<and> normalInverseCDF (1/2) 0 1 = Inr 0
     \<and> isl (normalInverseCDF 1 0 1) \<and> isl (normalInverseCDF 0 0 1)"
  using normalInverseCDF_domain_and_value [of "1/2" 0 1]
    normalInverseCDF_domain_and_value [of 1 0 1] normalInverseCDF_domain_and_value [of 0 0 1]
  by (simp add: standard_quantile_def central_rational_def)



section \<open>The evaluation adapter: errors\<close>


lemma includes_js_sublist: "includes_js s pat \<longleftrightarrow> sublist pat s"
proof (induction s)
  case Nil
  then show ?case by simp
next
  case (Cons c cs)
  show ?case
  proof (cases pat)
    case Nil
    then show ?thesis by simp
  next
    case (Cons p ps)
    then show ?thesis using Cons.IH by (simp add: sublist_Cons_right)
  qed
qed

lemma trim_empty_iff: "trim s = [] \<longleftrightarrow> (\<forall>c\<in>set s. is_space c)"
proof -
  have "trim s = [] \<longleftrightarrow> dropWhile is_space (rev (dropWhile is_space s)) = []"
    by (simp add: trim_def)
  also have "\<dots> \<longleftrightarrow> (\<forall>c\<in>set (dropWhile is_space s). is_space c)"
    by (simp add: dropWhile_eq_Nil_conv)
  also have "\<dots> \<longleftrightarrow> dropWhile is_space s = []"
  proof
    assume a: "\<forall>c\<in>set (dropWhile is_space s). is_space c"
    show "dropWhile is_space s = []"
    proof (rule ccontr)
      assume "dropWhile is_space s \<noteq> []"
      then have "\<not> is_space (hd (dropWhile is_space s))" "hd (dropWhile is_space s) \<in> set (dropWhile is_space s)"
        by (simp_all add: hd_dropWhile)
      with a show False by blast
    qed
  next
    assume d: "dropWhile is_space s = []"
    show "\<forall>c\<in>set (dropWhile is_space s). is_space c"
      unfolding d by simp
  qed
  also have "\<dots> \<longleftrightarrow> (\<forall>c\<in>set s. is_space c)"
    by (simp add: dropWhile_eq_Nil_conv)
  finally show ?thesis .
qed

lemma first_friendly_None:
  "first_friendly tbl message = None \<longleftrightarrow> (\<forall>p\<in>set tbl. \<not> sublist (fst p) message)"
  by (induction tbl message rule: first_friendly.induct) (auto simp: includes_js_sublist)

lemma first_friendly_Some:
  assumes "i < length tbl" "sublist (fst (tbl ! i)) message"
    and "\<forall>j<i. \<not> sublist (fst (tbl ! j)) message"
  shows "first_friendly tbl message = Some (snd (tbl ! i))"
  using assms
proof (induction tbl message arbitrary: i rule: first_friendly.induct)
  case (1 message)
  then show ?case by simp
next
  case (2 pattern friendly rest message)
  show ?case
  proof (cases i)
    case 0
    with 2 show ?thesis by (simp add: includes_js_sublist)
  next
    case (Suc i')
    then have "\<not> includes_js message pattern"
      using "2.prems"(3) by (auto simp: includes_js_sublist)
    moreover have "first_friendly rest message = Some (snd (rest ! i'))"
    proof (rule "2.IH")
      show "\<not> includes_js message pattern" by fact
      show "i' < length rest" using "2.prems"(1) Suc by simp
      show "sublist (fst (rest ! i')) message" using "2.prems"(2) Suc by simp
      show "\<forall>j<i'. \<not> sublist (fst (rest ! j)) message"
        using "2.prems"(3) Suc by auto
    qed
    ultimately show ?thesis using Suc by simp
  qed
qed


lemma all_less_2: "(\<forall>j<(2::nat). P j) \<longleftrightarrow> P 0 \<and> P 1"
  by (auto simp: less_2_cases_iff)




section \<open>The normalizer: implicit multiplication\<close>


















section \<open>The normalizer: the logarithm steps, stretch by stretch\<close>


lemma takeWhile_to_paren:
  "40 \<notin> set (w :: jsstring) \<Longrightarrow> takeWhile (\<lambda>c. c \<noteq> 40) (w @ 40 # rest) = w"
  by (induction w) auto

lemma prefix_name_paren:
  fixes u w :: jsstring
  assumes "40 \<notin> set u" "40 \<notin> set w"
  shows "prefix (u @ [40]) (w @ 40 # rest) \<longleftrightarrow> u = w"
proof
  assume "prefix (u @ [40]) (w @ 40 # rest)"
  then obtain zs where eq: "w @ 40 # rest = (u @ [40]) @ zs"
    by (auto simp: prefix_def)
  have "takeWhile (\<lambda>c. c \<noteq> 40) (w @ 40 # rest) = w"
    using assms(2) by (rule takeWhile_to_paren)
  moreover have "takeWhile (\<lambda>c. c \<noteq> 40) (u @ 40 # zs) = u"
    using assms(1) by (rule takeWhile_to_paren)
  ultimately show "u = w" using eq by simp
next
  assume "u = w"
  then show "prefix (u @ [40]) (w @ 40 # rest)" by simp
qed

lemma no_paren_no_match:
  fixes s :: jsstring
  assumes "40 \<notin> set s"
  shows "\<not> prefix (u @ [40]) s"
proof
  assume "prefix (u @ [40]) s"
  then have "set (u @ [40]) \<subseteq> set s" by (rule set_mono_prefix)
  with assms show False by simp
qed

lemma replace_all_b_no_paren:
  "40 \<notin> set s \<Longrightarrow> replace_all_b (u @ [40]) r prev s = s"
proof (induction s arbitrary: prev)
  case Nil
  then show ?case by simp
next
  case (Cons c cs)
  then have "\<not> prefix (u @ [40]) (c # cs)" by (intro no_paren_no_match) simp
  with Cons show ?case by simp
qed

lemma replace_all_no_paren:
  "40 \<notin> set s \<Longrightarrow> replace_all (u @ [40]) r s = s"
proof (induction s)
  case Nil
  then show ?case by simp
next
  case (Cons c cs)
  then have "\<not> prefix (u @ [40]) (c # cs)" by (intro no_paren_no_match) simp
  with Cons show ?case by simp
qed

lemma name_fires_whole:
  "name_fires (c # w) prev (c # w) \<longleftrightarrow> word_boundary prev (Some c)"
  by (simp add: name_fires_def before_def)

lemma name_fires_Cons:
  assumes "\<not> (word_boundary prev (Some c) \<and> u = c # w)"
  shows "name_fires u prev (c # w) \<longleftrightarrow> name_fires u (Some c) w"
proof (cases "suffix u w")
  case True
  then have len: "length u \<le> length w" by (rule suffix_length_le)
  then have t: "take (length (c # w) - length u) (c # w) = c # take (length w - length u) w"
    by (simp add: Suc_diff_le)
  have b: "before (c # take (length w - length u) w) prev
      = before (take (length w - length u) w) (Some c)"
    by (simp add: before_def)
  have "suffix u (c # w)" using True by (simp add: suffix_Cons)
  then show ?thesis
    using True by (simp only: name_fires_def t b)
next
  case nosuf: False
  show ?thesis
  proof (cases "u = c # w")
    case True
    then have "\<not> word_boundary prev (Some c)" using assms by simp
    then show ?thesis
      using True nosuf by (simp add: name_fires_def before_def)
  next
    case False
    then have "\<not> suffix u (c # w)" using nosuf by (simp add: suffix_Cons)
    then show ?thesis
      using nosuf by (simp add: name_fires_def)
  qed
qed

lemma name_fires_take:
  assumes "name_fires u (Some c) w"
  shows "take (length (c # w) - length u) (c # w) = c # take (length w - length u) w"
proof -
  have "suffix u w" using assms by (simp add: name_fires_def)
  then have "length u \<le> length w" by (rule suffix_length_le)
  then show ?thesis by (simp add: Suc_diff_le)
qed

lemma chunk_rewrite_b_Cons:
  assumes "\<not> (word_boundary prev (Some c) \<and> u = c # w)"
  shows "chunk_rewrite_b u r prev (c # w) = c # chunk_rewrite_b u r (Some c) w"
proof (cases "name_fires u (Some c) w")
  case True
  then show ?thesis
    using name_fires_Cons [OF assms] name_fires_take [OF True]
    by (simp only: chunk_rewrite_b_def) simp
next
  case False
  then show ?thesis
    using name_fires_Cons [OF assms] by (simp add: chunk_rewrite_b_def)
qed

lemma replace_all_b_chunk:
  assumes "u \<noteq> []" "40 \<notin> set u" "40 \<notin> set w"
  shows "replace_all_b (u @ [40]) (r @ [40]) prev (w @ 40 # rest)
     = chunk_rewrite_b u r prev w @ [40] @ replace_all_b (u @ [40]) (r @ [40]) (Some 40) rest"
  using assms(3)
proof (induction w arbitrary: prev)
  case Nil
  have "\<not> prefix (u @ [40]) (40 # rest)"
    using assms(1,2) by (cases u) auto
  moreover have "\<not> suffix u []"
    using assms(1) by simp
  ultimately show ?case
    by (simp add: chunk_rewrite_b_def name_fires_def)
next
  case (Cons c w)
  let ?pat = "u @ [40]" and ?rep = "r @ [40]"
  have w: "40 \<notin> set w" and c: "c \<noteq> 40" using Cons.prems by auto
  have m: "prefix ?pat (c # w @ 40 # rest) \<longleftrightarrow> u = c # w"
    using prefix_name_paren [OF assms(2) Cons.prems, of rest] by simp
  show ?case
  proof (cases "word_boundary prev (Some c) \<and> u = c # w")
    case True
    then have u: "u = c # w" by simp
    have "replace_all_b ?pat ?rep prev ((c # w) @ 40 # rest)
        = ?rep @ replace_all_b ?pat ?rep (Some 40) rest"
      using True m by (simp add: u)
    moreover have "chunk_rewrite_b u r prev (c # w) = r"
      using True by (simp add: chunk_rewrite_b_def u name_fires_whole)
    ultimately show ?thesis by simp
  next
    case False
    have step: "replace_all_b ?pat ?rep prev ((c # w) @ 40 # rest)
        = c # replace_all_b ?pat ?rep (Some c) (w @ 40 # rest)"
      using False m by auto
    show ?thesis
      using Cons.IH [OF w, of "Some c"]
      by (simp only: step chunk_rewrite_b_Cons [OF False]) simp
  qed
qed

lemma replace_all_chunk:
  assumes "u \<noteq> []" "40 \<notin> set u" "40 \<notin> set w"
  shows "replace_all (u @ [40]) (r @ [40]) (w @ 40 # rest)
     = chunk_rewrite u r w @ [40] @ replace_all (u @ [40]) (r @ [40]) rest"
  using assms(3)
proof (induction w)
  case Nil
  have "\<not> prefix (u @ [40]) (40 # rest)"
    using assms(1,2) by (cases u) auto
  moreover have "\<not> suffix u []"
    using assms(1) by simp
  ultimately show ?case
    by (simp add: chunk_rewrite_def)
next
  case (Cons c w)
  let ?pat = "u @ [40]" and ?rep = "r @ [40]"
  have w: "40 \<notin> set w" and c: "c \<noteq> 40" using Cons.prems by auto
  have m: "prefix ?pat (c # w @ 40 # rest) \<longleftrightarrow> u = c # w"
    using prefix_name_paren [OF assms(2) Cons.prems, of rest] by simp
  show ?case
  proof (cases "u = c # w")
    case True
    have "replace_all ?pat ?rep ((c # w) @ 40 # rest) = ?rep @ replace_all ?pat ?rep rest"
      using True m by (simp add: True)
    moreover have "chunk_rewrite u r (c # w) = r"
      by (simp add: chunk_rewrite_def True)
    ultimately show ?thesis by simp
  next
    case False
    have step: "replace_all ?pat ?rep ((c # w) @ 40 # rest)
        = c # replace_all ?pat ?rep (w @ 40 # rest)"
      using False m by auto
    have chunk: "chunk_rewrite u r (c # w) = c # chunk_rewrite u r w"
    proof (cases "suffix u w")
      case True
      then have len: "length u \<le> length w" by (rule suffix_length_le)
      then have t: "take (length (c # w) - length u) (c # w) = c # take (length w - length u) w"
        by (simp add: Suc_diff_le)
      have "suffix u (c # w)" using True by (simp add: suffix_Cons)
      then show ?thesis
        using True by (simp only: chunk_rewrite_def t) simp
    next
      case nosuf: False
      then have "\<not> suffix u (c # w)" using False by (simp add: suffix_Cons)
      then show ?thesis
        using nosuf by (simp add: chunk_rewrite_def)
    qed
    show ?thesis
      using Cons.IH [OF w] by (simp only: step chunk) simp
  qed
qed

lemma log_names_no_paren:
  "40 \<notin> set s \<Longrightarrow> log_names prev s = s"
proof (induction s arbitrary: prev)
  case Nil
  then show ?case by simp
next
  case (Cons c cs)
  have "\<not> prefix (js ''ln'' @ [40]) (c # cs)" "\<not> prefix (js ''log'' @ [40]) (c # cs)"
    using Cons.prems by (intro no_paren_no_match, simp)+
  then have "\<not> prefix (js ''ln('') (c # cs)" "\<not> prefix (js ''log('') (c # cs)"
    by (simp_all add: js_def)
  with Cons show ?case by simp
qed

lemma chunk_log_names_Cons:
  assumes "\<not> (word_boundary prev (Some c) \<and> js ''ln'' = c # w)"
    and "\<not> (word_boundary prev (Some c) \<and> js ''log'' = c # w)"
  shows "chunk_log_names prev (c # w) = c # chunk_log_names (Some c) w"
proof -
  have f: "name_fires (js ''ln'') prev (c # w) \<longleftrightarrow> name_fires (js ''ln'') (Some c) w"
    "name_fires (js ''log'') prev (c # w) \<longleftrightarrow> name_fires (js ''log'') (Some c) w"
    using name_fires_Cons [OF assms(1)] name_fires_Cons [OF assms(2)] by blast+
  have l: "length (js ''ln'') = 2" "length (js ''log'') = 3"
    by (simp_all add: js_def)
  have t: "take (length (c # w) - 2) (c # w) = c # take (length w - 2) w"
    if "name_fires (js ''ln'') (Some c) w"
    using name_fires_take [OF that] by (simp only: l)
  have t': "take (length (c # w) - 3) (c # w) = c # take (length w - 3) w"
    if "name_fires (js ''log'') (Some c) w"
    using name_fires_take [OF that] by (simp only: l)
  show ?thesis
    using t t' by (simp only: chunk_log_names_def f) auto
qed

lemma log_names_chunk:
  assumes "40 \<notin> set w"
  shows "log_names prev (w @ 40 # rest)
     = chunk_log_names prev w @ [40] @ log_names (Some 40) rest"
  using assms
proof (induction w arbitrary: prev)
  case Nil
  then show ?case
    by (simp add: chunk_log_names_def name_fires_def js_def)
next
  case (Cons c w)
  have w: "40 \<notin> set w" using Cons.prems by simp
  have ln: "prefix (js ''ln('') (c # w @ 40 # rest) \<longleftrightarrow> js ''ln'' = c # w"
    using prefix_name_paren [of "js ''ln''" "c # w" rest] Cons.prems by (simp add: js_def)
  have lg: "prefix (js ''log('') (c # w @ 40 # rest) \<longleftrightarrow> js ''log'' = c # w"
    using prefix_name_paren [of "js ''log''" "c # w" rest] Cons.prems by (simp add: js_def)
  consider (ln) "word_boundary prev (Some c)" "js ''ln'' = c # w"
    | (lg) "word_boundary prev (Some c)" "js ''log'' = c # w"
    | (no) "\<not> (word_boundary prev (Some c) \<and> js ''ln'' = c # w)"
        "\<not> (word_boundary prev (Some c) \<and> js ''log'' = c # w)"
    by blast
  then show ?case
  proof cases
    case ln
    then have cw: "c = 108" "w = [110]" by (simp_all add: js_def)
    have "log_names prev ((c # w) @ 40 # rest) = js ''log('' @ log_names (Some 40) rest"
      using ln(1) by (simp add: cw js_def)
    moreover have "chunk_log_names prev (c # w) = js ''log''"
      using ln(1)
      by (simp add: chunk_log_names_def name_fires_def before_def cw js_def suffix_to_prefix)
    ultimately show ?thesis by (simp add: js_def)
  next
    case lg
    then have cw: "c = 108" "w = [111, 103]" by (simp_all add: js_def)
    have "log_names prev ((c # w) @ 40 # rest) = js ''log10('' @ log_names (Some 40) rest"
      using lg(1) by (simp add: cw js_def)
    moreover have "chunk_log_names prev (c # w) = js ''log10''"
      using lg(1)
      by (simp add: chunk_log_names_def name_fires_def before_def cw js_def suffix_to_prefix)
    ultimately show ?thesis by (simp add: js_def)
  next
    case no
    have "log_names prev ((c # w) @ 40 # rest) = c # log_names (Some c) (w @ 40 # rest)"
      using no ln lg by auto
    then show ?thesis
      using Cons.IH [OF w, of "Some c"] chunk_log_names_Cons [OF no] by simp
  qed
qed


lemma name_paren:
  "js ''ln('' = js ''ln'' @ [40]" "js ''log10('' = js ''log10'' @ [40]"
  "js ''log2('' = js ''log2'' @ [40]" "js ''log('' = js ''log'' @ [40]"
  "js ''__NATLOG__('' = js ''__NATLOG__'' @ [40]" "js ''__LOG10__('' = js ''__LOG10__'' @ [40]"
  "js ''__LOG2__('' = js ''__LOG2__'' @ [40]"
  by (simp_all add: js_def)

lemma names_without_paren:
  "js ''ln'' \<noteq> []" "40 \<notin> set (js ''ln'')" "js ''log10'' \<noteq> []" "40 \<notin> set (js ''log10'')"
  "js ''log2'' \<noteq> []" "40 \<notin> set (js ''log2'')" "js ''log'' \<noteq> []" "40 \<notin> set (js ''log'')"
  "js ''__NATLOG__'' \<noteq> []" "40 \<notin> set (js ''__NATLOG__'')"
  "js ''__LOG10__'' \<noteq> []" "40 \<notin> set (js ''__LOG10__'')"
  "js ''__LOG2__'' \<noteq> []" "40 \<notin> set (js ''__LOG2__'')"
  by (simp_all add: js_def)

lemma chunk_rewrite_b_no_paren:
  assumes "40 \<notin> set w" "40 \<notin> set r"
  shows "40 \<notin> set (chunk_rewrite_b u r prev w)"
proof -
  have "set (take n w) \<subseteq> set w" for n by (rule set_take_subset)
  then show ?thesis using assms by (auto simp: chunk_rewrite_b_def)
qed

lemma chunk_rewrite_no_paren:
  assumes "40 \<notin> set w" "40 \<notin> set r"
  shows "40 \<notin> set (chunk_rewrite u r w)"
proof -
  have "set (take n w) \<subseteq> set w" for n by (rule set_take_subset)
  then show ?thesis using assms by (auto simp: chunk_rewrite_def)
qed

lemma suffix_split:
  assumes "suffix u w"
  shows "w = take (length w - length u) w @ u"
  using assms by (metis suffix_take)

lemmas chunk_defs = chunk_rewrite_b_def chunk_rewrite_def chunk_log_names_def name_fires_def
  suffix_to_prefix js_def

lemma chunk_steps:
  assumes "\<not> suffix (js ''__NATLOG__'') w" "\<not> suffix (js ''__LOG10__'') w"
    "\<not> suffix (js ''__LOG2__'') w"
  shows "chunk_rewrite (js ''__LOG2__'') (js ''log2'')
          (chunk_rewrite (js ''__LOG10__'') (js ''log10'')
            (chunk_rewrite (js ''__NATLOG__'') (js ''log'')
              (chunk_rewrite_b (js ''log'') (js ''log10'') prev
                (chunk_rewrite_b (js ''log2'') (js ''__LOG2__'') prev
                  (chunk_rewrite_b (js ''log10'') (js ''__LOG10__'') prev
                    (chunk_rewrite_b (js ''ln'') (js ''__NATLOG__'') prev w))))))
     = chunk_log_names prev w"
proof -
  consider (ln) "name_fires (js ''ln'') prev w"
    | (l10) "\<not> name_fires (js ''ln'') prev w" "name_fires (js ''log10'') prev w"
    | (l2) "\<not> name_fires (js ''ln'') prev w" "\<not> name_fires (js ''log10'') prev w"
        "name_fires (js ''log2'') prev w"
    | (lg) "\<not> name_fires (js ''ln'') prev w" "\<not> name_fires (js ''log10'') prev w"
        "\<not> name_fires (js ''log2'') prev w" "name_fires (js ''log'') prev w"
    | (none) "\<not> name_fires (js ''ln'') prev w" "\<not> name_fires (js ''log10'') prev w"
        "\<not> name_fires (js ''log2'') prev w" "\<not> name_fires (js ''log'') prev w"
    by blast
  then show ?thesis
  proof cases
    case ln
    define v where "v = take (length w - length (js ''ln'')) w"
    have w: "w = v @ js ''ln''"
      using ln suffix_split unfolding v_def name_fires_def by blast
    have b: "word_boundary (before v prev) (Some 108)"
      using ln unfolding v_def name_fires_def by (simp add: js_def)
    show ?thesis
      unfolding w using b by (simp add: chunk_defs)
  next
    case l10
    define v where "v = take (length w - length (js ''log10'')) w"
    have w: "w = v @ js ''log10''"
      using l10(2) suffix_split unfolding v_def name_fires_def by blast
    have b: "word_boundary (before v prev) (Some 108)"
      using l10(2) unfolding v_def name_fires_def by (simp add: js_def)
    show ?thesis
      unfolding w using b by (simp add: chunk_defs)
  next
    case l2
    define v where "v = take (length w - length (js ''log2'')) w"
    have w: "w = v @ js ''log2''"
      using l2(3) suffix_split unfolding v_def name_fires_def by blast
    have b: "word_boundary (before v prev) (Some 108)"
      using l2(3) unfolding v_def name_fires_def by (simp add: js_def)
    show ?thesis
      unfolding w using b by (simp add: chunk_defs)
  next
    case lg
    define v where "v = take (length w - length (js ''log'')) w"
    have w: "w = v @ js ''log''"
      using lg(4) suffix_split unfolding v_def name_fires_def by blast
    have b: "word_boundary (before v prev) (Some 108)"
      using lg(4) unfolding v_def name_fires_def by (simp add: js_def)
    show ?thesis
      unfolding w using b by (simp add: chunk_defs)
  next
    case none
    then show ?thesis
      using assms by (simp add: chunk_rewrite_b_def chunk_rewrite_def chunk_log_names_def)
  qed
qed


lemma placeholder_in_chunk:
  assumes "suffix u w"
  shows "sublist (u @ [40]) (w @ 40 # rest)"
proof -
  obtain v where "w = v @ u" using assms by (auto simp: suffix_def)
  then have "w @ 40 # rest = v @ (u @ [40]) @ rest" by simp
  then show ?thesis unfolding sublist_def by blast
qed

lemma sublist_in_rest:
  assumes "sublist p rest"
  shows "sublist p (w @ c # rest)"
proof -
  obtain a b where "rest = a @ p @ b" using assms by (auto simp: sublist_def)
  then have "w @ c # rest = (w @ c # a) @ p @ b" by simp
  then show ?thesis unfolding sublist_def by blast
qed

lemma logarithm_steps_chunk:
  assumes "40 \<notin> set w"
  shows "logarithm_steps prev (w @ 40 # rest)
     = chunk_rewrite (js ''__LOG2__'') (js ''log2'')
          (chunk_rewrite (js ''__LOG10__'') (js ''log10'')
            (chunk_rewrite (js ''__NATLOG__'') (js ''log'')
              (chunk_rewrite_b (js ''log'') (js ''log10'') prev
                (chunk_rewrite_b (js ''log2'') (js ''__LOG2__'') prev
                  (chunk_rewrite_b (js ''log10'') (js ''__LOG10__'') prev
                    (chunk_rewrite_b (js ''ln'') (js ''__NATLOG__'') prev w))))))
       @ [40] @ logarithm_steps (Some 40) rest"
proof -
  define w1 where "w1 = chunk_rewrite_b (js ''ln'') (js ''__NATLOG__'') prev w"
  define w2 where "w2 = chunk_rewrite_b (js ''log10'') (js ''__LOG10__'') prev w1"
  define w3 where "w3 = chunk_rewrite_b (js ''log2'') (js ''__LOG2__'') prev w2"
  define w4 where "w4 = chunk_rewrite_b (js ''log'') (js ''log10'') prev w3"
  define w5 where "w5 = chunk_rewrite (js ''__NATLOG__'') (js ''log'') w4"
  define w6 where "w6 = chunk_rewrite (js ''__LOG10__'') (js ''log10'') w5"
  have p1: "40 \<notin> set w1"
    unfolding w1_def using assms names_without_paren by (intro chunk_rewrite_b_no_paren)
  have p2: "40 \<notin> set w2"
    unfolding w2_def using p1 names_without_paren by (intro chunk_rewrite_b_no_paren)
  have p3: "40 \<notin> set w3"
    unfolding w3_def using p2 names_without_paren by (intro chunk_rewrite_b_no_paren)
  have p4: "40 \<notin> set w4"
    unfolding w4_def using p3 names_without_paren by (intro chunk_rewrite_b_no_paren)
  have p5: "40 \<notin> set w5"
    unfolding w5_def using p4 names_without_paren by (intro chunk_rewrite_no_paren)
  have p6: "40 \<notin> set w6"
    unfolding w6_def using p5 names_without_paren by (intro chunk_rewrite_no_paren)
  note b = replace_all_b_chunk [OF names_without_paren(1,2)]
    replace_all_b_chunk [OF names_without_paren(3,4)]
    replace_all_b_chunk [OF names_without_paren(5,6)]
    replace_all_b_chunk [OF names_without_paren(7,8)]
  note r = replace_all_chunk [OF names_without_paren(9,10)]
    replace_all_chunk [OF names_without_paren(11,12)]
    replace_all_chunk [OF names_without_paren(13,14)]
  show ?thesis
    unfolding logarithm_steps_def name_paren
    by (simp only: b(1) [OF assms] b(2) [OF p1 [unfolded w1_def]]
        b(3) [OF p2 [unfolded w2_def w1_def]] b(4) [OF p3 [unfolded w3_def w2_def w1_def]]
        r(1) [OF p4 [unfolded w4_def w3_def w2_def w1_def]]
        r(2) [OF p5 [unfolded w5_def w4_def w3_def w2_def w1_def]]
        r(3) [OF p6 [unfolded w6_def w5_def w4_def w3_def w2_def w1_def]]
        append_Cons append_Nil)
qed

lemma logarithm_steps_no_paren:
  assumes "40 \<notin> set s"
  shows "logarithm_steps prev s = s"
  unfolding logarithm_steps_def name_paren
  by (simp only: replace_all_b_no_paren [OF assms] replace_all_no_paren [OF assms])

lemma logarithm_steps_log_names:
  assumes "\<not> sublist (js ''__NATLOG__('') s" "\<not> sublist (js ''__LOG10__('') s"
    "\<not> sublist (js ''__LOG2__('') s"
  shows "logarithm_steps prev s = log_names prev s"
  using assms
proof (induction s arbitrary: prev rule: length_induct)
  case (1 s)
  show ?case
  proof (cases "40 \<in> set s")
    case False
    show ?thesis
      by (simp only: logarithm_steps_no_paren [OF False] log_names_no_paren [OF False])
  next
    case True
    then obtain w rest where s: "s = w @ 40 # rest" and w: "40 \<notin> set w"
      by (meson split_list_first)
    have clean: "\<not> suffix (js ''__NATLOG__'') w" "\<not> suffix (js ''__LOG10__'') w"
      "\<not> suffix (js ''__LOG2__'') w"
      using "1.prems" placeholder_in_chunk [of _ w rest] unfolding s name_paren by blast+
    have rest: "\<not> sublist (js ''__NATLOG__('') rest" "\<not> sublist (js ''__LOG10__('') rest"
      "\<not> sublist (js ''__LOG2__('') rest"
      using "1.prems" sublist_in_rest [of _ rest w 40] unfolding s by blast+
    have "length rest < length s" unfolding s by simp
    then have ih: "logarithm_steps (Some 40) rest = log_names (Some 40) rest"
      using "1.IH" rest by blast
    show ?thesis
      unfolding s
      by (simp only: logarithm_steps_chunk [OF w] chunk_steps [OF clean] ih log_names_chunk [OF w])
  qed
qed

lemma rewrite_logarithms_steps: "rewrite_logarithms s = logarithm_steps None s"
  by (simp add: rewrite_logarithms_def logarithm_steps_def Let_def)

text \<open>
  Where the names start a word the logarithm steps do what they are meant to do: on an
  input that holds none of the three placeholder tokens they are the single pass
  \<open>log_names\<close>, whatever the number and the order of the names.
\<close>

lemma rewrite_logarithms_at_word_start:
  assumes "\<not> sublist (js ''__NATLOG__('') s" "\<not> sublist (js ''__LOG10__('') s"
    "\<not> sublist (js ''__LOG2__('') s"
  shows "rewrite_logarithms s = log_names None s"
  using logarithm_steps_log_names [OF assms] by (simp only: rewrite_logarithms_steps)


section \<open>The normalizer: logarithm names\<close>

lemma logarithm_examples:
  "preprocessExpression (js ''log(1000)'') = js ''log10(1000)''"
  "preprocessExpression (js ''ln(e)'') = js ''log(e)''"
  "preprocessExpression (js ''log10(100)'') = js ''log10(100)''"
  "preprocessExpression (js ''log2(8)+ln(2)*log(5)'') = js ''log2(8)+log(2)*log10(5)''"
  by (simp_all add: eval_defs)

text \<open>
  Claim C3.  The claim is that every \<open>ln(\<close> becomes \<open>log(\<close> and every bare \<open>log(\<close> becomes
  \<open>log10(\<close>, while \<open>log10(\<close> and \<open>log2(\<close> stay.  For names that start a word this is lemma
  \<open>rewrite_logarithms_at_word_start\<close>.  But the patterns of the source start with \<open>\b\<close>, and
  a digit is a word character, so a name that directly follows a digit is not rewritten:
  \<open>2log(100)\<close> leaves the logarithm steps unchanged and then gets its \<open>*\<close>, which makes it
  the natural logarithm for the evaluator, and \<open>2ln(3)\<close> keeps the name \<open>ln\<close>, which the
  evaluator does not know.  The implicit multiplication that follows handles the same
  shape, \<open>3sin(0)\<close>.
\<close>

theorem logarithm_rewrite_misses_digit_prefix:
  "rewrite_logarithms (js ''2log(100)'') = js ''2log(100)''
   \<and> preprocessExpression (js ''2log(100)'') = js ''2*log(100)''
   \<and> rewrite_logarithms (js ''2ln(3)'') = js ''2ln(3)''
   \<and> preprocessExpression (js ''2ln(3)'') = js ''2*ln(3)''
   \<and> preprocessExpression (js ''3sin(0)'') = js ''3*sin(0)''"
  by (simp add: eval_defs)

text \<open>
  Claim C1.  \<open>evaluate\<close> never propagates an exception: it is a total function into
  \<open>CalculationResult\<close>, and every throwing collaborator call is inside its \<open>try\<close>.  An
  empty or whitespace-only input gives the failure \<open>Empty expression\<close>, decided before
  normalization.  Otherwise an error thrown by the evaluator (or by the formatter of a
  non-numeric result) becomes the failure whose message is: the table's translation of
  the first known substring that the raw message contains; \<open>Syntax Error\<close> when it
  contains none and is longer than 30 characters; the raw message itself otherwise.
\<close>

theorem evaluate_catches_every_error:
  "((\<forall>c\<in>set e. is_space c) \<longrightarrow> evaluate h e u = Failure (js ''Empty expression''))
   \<and> (\<not> (\<forall>c\<in>set e. is_space c) \<longrightarrow>
        (\<forall>raw. math_evaluate h (preprocessExpression e) (angle_scope u) = Inl raw \<longrightarrow>
           evaluate h e u = Failure (getUserFriendlyError raw))
      \<and> (\<forall>obj raw. math_evaluate h (preprocessExpression e) (angle_scope u) = Inr (MObject obj)
             \<and> math_format h obj DISPLAY_PRECISION = Inl raw \<longrightarrow>
           evaluate h e u = Failure (getUserFriendlyError raw)))
   \<and> (\<forall>i<length ERROR_MESSAGES.
         sublist (fst (ERROR_MESSAGES ! i)) message
         \<and> (\<forall>j<i. \<not> sublist (fst (ERROR_MESSAGES ! j)) message) \<longrightarrow>
         getUserFriendlyError message = snd (ERROR_MESSAGES ! i))
   \<and> ((\<forall>p\<in>set ERROR_MESSAGES. \<not> sublist (fst p) message) \<and> length message > 30 \<longrightarrow>
         getUserFriendlyError message = js ''Syntax Error'')
   \<and> ((\<forall>p\<in>set ERROR_MESSAGES. \<not> sublist (fst p) message) \<and> length message \<le> 30 \<longrightarrow>
         getUserFriendlyError message = message)"
proof (intro conjI impI allI)
  assume "\<forall>c\<in>set e. is_space c"
  then show "evaluate h e u = Failure (js ''Empty expression'')"
    by (simp add: evaluate_def trim_empty_iff)
next
  fix raw
  assume "\<not> (\<forall>c\<in>set e. is_space c)"
  then have "trim e \<noteq> []"
    by (simp only: trim_empty_iff not_False_eq_True)
  moreover assume "math_evaluate h (preprocessExpression e) (angle_scope u) = Inl raw"
  ultimately show "evaluate h e u = Failure (getUserFriendlyError raw)"
    by (simp add: evaluate_def transformForAngleUnit_def)
next
  fix obj raw
  assume "\<not> (\<forall>c\<in>set e. is_space c)"
  then have "trim e \<noteq> []"
    by (simp only: trim_empty_iff not_False_eq_True)
  moreover assume "math_evaluate h (preprocessExpression e) (angle_scope u) = Inr (MObject obj)
           \<and> math_format h obj DISPLAY_PRECISION = Inl raw"
  ultimately show "evaluate h e u = Failure (getUserFriendlyError raw)"
    by (simp add: evaluate_def transformForAngleUnit_def)
next
  fix i
  assume "i < length ERROR_MESSAGES"
    and "sublist (fst (ERROR_MESSAGES ! i)) message
         \<and> (\<forall>j<i. \<not> sublist (fst (ERROR_MESSAGES ! j)) message)"
  then have "first_friendly ERROR_MESSAGES message = Some (snd (ERROR_MESSAGES ! i))"
    using first_friendly_Some by blast
  then show "getUserFriendlyError message = snd (ERROR_MESSAGES ! i)"
    by (simp add: getUserFriendlyError_def)
next
  assume "(\<forall>p\<in>set ERROR_MESSAGES. \<not> sublist (fst p) message) \<and> length message > 30"
  then show "getUserFriendlyError message = js ''Syntax Error''"
    using first_friendly_None [of ERROR_MESSAGES message]
    by (simp add: getUserFriendlyError_def)
next
  assume "(\<forall>p\<in>set ERROR_MESSAGES. \<not> sublist (fst p) message) \<and> length message \<le> 30"
  then show "getUserFriendlyError message = message"
    using first_friendly_None [of ERROR_MESSAGES message]
    by (simp add: getUserFriendlyError_def)
qed

theorem evaluate_catches_every_error_witness:
  "evaluate sample_host (js ''   '') Rad = Failure (js ''Empty expression'')
   \<and> evaluate sample_host (js ''foo(1)'') Deg = Failure (js ''Unknown function'')
   \<and> evaluate sample_host (js ''[1,'') Rad = Failure (js ''Missing value'')
   \<and> getUserFriendlyError (js ''Syntax error in part @ (char 1)'') = js ''Syntax Error''
   \<and> getUserFriendlyError (js ''Unexpected operator'') = js ''Unexpected operator''"
proof -
  have blank: "\<forall>c\<in>set (js ''   ''). is_space c"
    by (simp add: js_def is_space_def)
  have nonblank: "\<not> (\<forall>c\<in>set (js ''foo(1)''). is_space c)" "\<not> (\<forall>c\<in>set (js ''[1,''). is_space c)"
    by (simp_all add: js_def is_space_def)
  have pre: "preprocessExpression (js ''foo(1)'') = js ''foo(1)''"
    "preprocessExpression (js ''[1,'') = js ''[1,''"
    by (simp_all add: eval_defs)
  have thrown: "math_evaluate sample_host (preprocessExpression (js ''foo(1)'')) (angle_scope Deg)
      = Inl (js ''Undefined function foo'')"
    by (simp add: pre sample_host_fields sample_evaluate_def) (simp add: js_def)
  have fmt: "math_evaluate sample_host (preprocessExpression (js ''[1,'')) (angle_scope Rad)
      = Inr (MObject (MathjsObject 1))
    \<and> math_format sample_host (MathjsObject 1) DISPLAY_PRECISION = Inl (js ''Value expected (char 4)'')"
    by (simp add: pre sample_host_fields sample_evaluate_def) (simp add: js_def)
  have m0: "0 < length ERROR_MESSAGES"
    "sublist (fst (ERROR_MESSAGES ! 0)) (js ''Undefined function foo'')
       \<and> (\<forall>j<0. \<not> sublist (fst (ERROR_MESSAGES ! j)) (js ''Undefined function foo''))"
    by (simp_all add: ERROR_MESSAGES_def includes_js_sublist [symmetric] js_def)
  have m2: "2 < length ERROR_MESSAGES"
    "sublist (fst (ERROR_MESSAGES ! 2)) (js ''Value expected (char 4)'')
       \<and> (\<forall>j<2. \<not> sublist (fst (ERROR_MESSAGES ! j)) (js ''Value expected (char 4)''))"
    by (simp_all add: ERROR_MESSAGES_def includes_js_sublist [symmetric] js_def all_less_2)
  have long: "(\<forall>p\<in>set ERROR_MESSAGES.
        \<not> sublist (fst p) (js ''Syntax error in part @ (char 1)''))
      \<and> length (js ''Syntax error in part @ (char 1)'') > 30"
    by (simp add: ERROR_MESSAGES_def includes_js_sublist [symmetric] js_def)
  have short: "(\<forall>p\<in>set ERROR_MESSAGES. \<not> sublist (fst p) (js ''Unexpected operator''))
      \<and> length (js ''Unexpected operator'') \<le> 30"
    by (simp add: ERROR_MESSAGES_def includes_js_sublist [symmetric] js_def)
  have "evaluate sample_host (js ''   '') Rad = Failure (js ''Empty expression'')"
    using evaluate_catches_every_error [of "js ''   ''" sample_host Rad] blank by blast
  moreover have "evaluate sample_host (js ''foo(1)'') Deg
      = Failure (getUserFriendlyError (js ''Undefined function foo''))"
    using evaluate_catches_every_error [of "js ''foo(1)''" sample_host Deg] nonblank thrown
    by blast
  moreover have "getUserFriendlyError (js ''Undefined function foo'') = snd (ERROR_MESSAGES ! 0)"
    using evaluate_catches_every_error [of "[]" sample_host Rad "js ''Undefined function foo''"] m0
    by blast
  moreover have "evaluate sample_host (js ''[1,'') Rad
      = Failure (getUserFriendlyError (js ''Value expected (char 4)''))"
    using evaluate_catches_every_error [of "js ''[1,''" sample_host Rad] nonblank fmt
    by blast
  moreover have "getUserFriendlyError (js ''Value expected (char 4)'') = snd (ERROR_MESSAGES ! 2)"
    using evaluate_catches_every_error [of "[]" sample_host Rad "js ''Value expected (char 4)''"] m2
    by blast
  moreover have "getUserFriendlyError (js ''Syntax error in part @ (char 1)'')
      = js ''Syntax Error''"
    using evaluate_catches_every_error
      [of "[]" sample_host Rad "js ''Syntax error in part @ (char 1)''"] long
    by blast
  moreover have "getUserFriendlyError (js ''Unexpected operator'') = js ''Unexpected operator''"
    using evaluate_catches_every_error [of "[]" sample_host Rad "js ''Unexpected operator''"] short
    by blast
  moreover have "snd (ERROR_MESSAGES ! 0) = js ''Unknown function''"
    "snd (ERROR_MESSAGES ! 2) = js ''Missing value''"
    by (simp_all add: ERROR_MESSAGES_def)
  ultimately show ?thesis by simp
qed


section \<open>The function sampler\<close>


lemma replace_x_positions:
  "replace_x rep (prev_at (pre @ s) (length pre)) s
     = concat (map (\<lambda>i. if x_token (pre @ s) (length pre + i) then rep else [s ! i])
         [0..<length s])"
proof (induction s arbitrary: pre)
  case Nil
  then show ?case by simp
next
  case (Cons c cs)
  have prev': "prev_at ((pre @ [c]) @ cs) (length (pre @ [c])) = Some c"
    by (simp add: prev_at_def nth_append)
  have nxt: "next_at (pre @ c # cs) (length pre) = next_char cs"
    by (cases cs) (simp_all add: next_at_def next_char_def nth_append)
  have here: "x_token (pre @ c # cs) (length pre)
      \<longleftrightarrow> (c = 120 \<or> c = 88) \<and> word_boundary (prev_at (pre @ c # cs) (length pre)) (Some c)
            \<and> word_boundary (Some c) (next_char cs)"
    by (simp add: x_token_def nxt)
  have rest: "replace_x rep (Some c) cs
      = concat (map (\<lambda>i. if x_token (pre @ c # cs) (length pre + Suc i) then rep else [cs ! i])
          [0..<length cs])"
    using Cons.IH [of "pre @ [c]"] prev' by simp
  have "replace_x rep (prev_at (pre @ c # cs) (length pre)) (c # cs)
      = (if x_token (pre @ c # cs) (length pre) then rep else [c]) @ replace_x rep (Some c) cs"
    by (auto simp: here)
  also have "\<dots> = (if x_token (pre @ c # cs) (length pre + 0) then rep else [(c # cs) ! 0])
      @ concat (map (\<lambda>i. if x_token (pre @ c # cs) (length pre + Suc i) then rep
                            else [(c # cs) ! Suc i]) [0..<length cs])"
    by (simp only: rest nth_Cons_0 nth_Cons_Suc add_0_right)
  also have "\<dots> = concat (map (\<lambda>i. if x_token (pre @ c # cs) (length pre + i) then rep
                            else [(c # cs) ! i]) [0..<length (c # cs)])"
    by (simp only: length_Cons concat_map_upt_Suc)
  finally show ?case .
qed

lemma replace_x_spec:
  "replace_x rep None s
     = concat (map (\<lambda>i. if x_token s i then rep else [s ! i]) [0..<length s])"
  using replace_x_positions [of rep "[]" s] by (simp add: prev_at_def)

lemma evaluateFunction_cases:
  "evaluateFunction h expression x =
     (case evaluate h (replace_x (js ''('' @ toString h x @ js '')'') None expression) Rad of
        Success (NumberValue v) d \<Rightarrow> if isFinite v then Some v else None
      | Success (StringValue v) d \<Rightarrow> None
      | Failure e \<Rightarrow> None)"
  by (simp add: evaluateFunction_def Let_def)

lemma sample_1_over_x:
  assumes "toString h (Fin 0) = js ''0''"
    and "math_evaluate h (js ''1/(0)'') [] = Inr (MNumber PosInf)"
  shows "evaluate h (js ''1/(0)'') Rad = Success (NumberValue PosInf) (js ''Infinity'')"
    and "evaluateFunction h (js ''1/x'') (Fin 0) = None"
proof -
  have sub: "replace_x (js ''('' @ toString h (Fin 0) @ js '')'') None (js ''1/x'') = js ''1/(0)''"
    by (simp add: assms(1)) (simp add: eval_defs next_char_def)
  have pre: "preprocessExpression (js ''1/(0)'') = js ''1/(0)''"
    by (simp add: eval_defs)
  have nonblank: "trim (js ''1/(0)'') \<noteq> []"
    by (simp add: trim_def js_def is_space_def)
  show ev: "evaluate h (js ''1/(0)'') Rad = Success (NumberValue PosInf) (js ''Infinity'')"
    using assms(2) nonblank
    by (simp add: evaluate_def pre transformForAngleUnit_def angle_scope_def formatNumber_def)
  show "evaluateFunction h (js ''1/x'') (Fin 0) = None"
    by (simp add: evaluateFunction_cases sub ev)
qed

text \<open>
  Claim C5.  The sampler replaces every occurrence of \<open>x\<close> or \<open>X\<close> that has a word boundary
  on both sides by the parenthesized numeric literal of the supplied number, evaluates
  the result in radians, and returns the value exactly when the evaluation succeeded
  with a finite number; in every other case it returns the undefined signal.  It has no
  raise path.  Sampling \<open>1/x\<close> at \<open>0\<close> gives the undefined signal although \<open>evaluate\<close>
  succeeds with \<open>Infinity\<close> (for a collaborator that writes \<open>0\<close> as \<open>0\<close> and divides by zero
  to infinity).
\<close>

theorem evaluateFunction_spec:
  "(let expr = concat (map (\<lambda>i. if x_token expression i then js ''('' @ toString h x @ js '')''
                               else [expression ! i]) [0..<length expression])
    in (\<forall>y. evaluateFunction h expression x = Some y
             \<longleftrightarrow> (\<exists>d. evaluate h expr Rad = Success (NumberValue y) d) \<and> isFinite y)
     \<and> (evaluateFunction h expression x = None
           \<longleftrightarrow> \<not> (\<exists>y d. evaluate h expr Rad = Success (NumberValue y) d \<and> isFinite y)))
   \<and> (toString h (Fin 0) = js ''0'' \<and> math_evaluate h (js ''1/(0)'') [] = Inr (MNumber PosInf) \<longrightarrow>
        evaluate h (js ''1/(0)'') Rad = Success (NumberValue PosInf) (js ''Infinity'')
        \<and> evaluateFunction h (js ''1/x'') (Fin 0) = None)"
proof (intro conjI impI)
  show "let expr = concat (map (\<lambda>i. if x_token expression i then js ''('' @ toString h x @ js '')''
                               else [expression ! i]) [0..<length expression])
    in (\<forall>y. evaluateFunction h expression x = Some y
             \<longleftrightarrow> (\<exists>d. evaluate h expr Rad = Success (NumberValue y) d) \<and> isFinite y)
     \<and> (evaluateFunction h expression x = None
           \<longleftrightarrow> \<not> (\<exists>y d. evaluate h expr Rad = Success (NumberValue y) d \<and> isFinite y))"
    unfolding Let_def replace_x_spec [symmetric] evaluateFunction_cases
    by (auto split: CalculationResult.splits result_value.splits)
next
  assume a: "toString h (Fin 0) = js ''0'' \<and> math_evaluate h (js ''1/(0)'') [] = Inr (MNumber PosInf)"
  then show "evaluate h (js ''1/(0)'') Rad = Success (NumberValue PosInf) (js ''Infinity'')"
    using sample_1_over_x(1) by blast
  from a show "evaluateFunction h (js ''1/x'') (Fin 0) = None"
    using sample_1_over_x(2) by blast
qed

theorem evaluateFunction_spec_witness:
  "toString sample_host (Fin 0) = js ''0''
   \<and> math_evaluate sample_host (js ''1/(0)'') [] = Inr (MNumber PosInf)
   \<and> evaluate sample_host (js ''1/(0)'') Rad = Success (NumberValue PosInf) (js ''Infinity'')
   \<and> evaluateFunction sample_host (js ''1/x'') (Fin 0) = None
   \<and> evaluateFunction sample_host (js ''1/x'') (Fin 2) = Some (Fin (1 / 2))"
proof -
  have h: "toString sample_host (Fin 0) = js ''0''
      \<and> math_evaluate sample_host (js ''1/(0)'') [] = Inr (MNumber PosInf)"
    by (simp add: sample_host_fields sample_toString_def sample_evaluate_def) (simp add: js_def)
  have sub: "concat (map (\<lambda>i. if x_token (js ''1/x'') i
                              then js ''('' @ toString sample_host (Fin 2) @ js '')''
                              else [js ''1/x'' ! i]) [0..<length (js ''1/x'')])
      = js ''1/(2)''"
    by (simp only: replace_x_spec [symmetric])
      (simp add: sample_host_fields sample_toString_def eval_defs next_char_def)
  have pre: "preprocessExpression (js ''1/(2)'') = js ''1/(2)''"
    by (simp add: eval_defs)
  have run: "math_evaluate sample_host (js ''1/(2)'') [] = Inr (MNumber (Fin (1 / 2)))"
    by (simp add: sample_host_fields sample_evaluate_def) (simp add: js_def)
  have "trim (js ''1/(2)'') \<noteq> []"
    by (simp add: trim_def js_def is_space_def)
  then have ev: "evaluate sample_host (js ''1/(2)'') Rad
      = Success (NumberValue (Fin (1 / 2))) (formatNumber sample_host (Fin (1 / 2)))"
    using run by (simp add: evaluate_def pre transformForAngleUnit_def angle_scope_def)
  have "evaluateFunction sample_host (js ''1/x'') (Fin 2) = Some (Fin (1 / 2))"
    using evaluateFunction_spec [of "js ''1/x''" sample_host "Fin 2"] ev
    by (simp only: Let_def sub) (simp add: isFinite.simps)
  then show ?thesis
    using h evaluateFunction_spec [of "js ''1/x''" sample_host "Fin 0"] by blast
qed


section \<open>The evaluation adapter: angle units\<close>


lemma js_names_distinct:
  "js ''sin'' \<noteq> js ''cos''" "js ''sin'' \<noteq> js ''tan''" "js ''sin'' \<noteq> js ''asin''"
  "js ''sin'' \<noteq> js ''acos''" "js ''sin'' \<noteq> js ''atan''"
  "js ''cos'' \<noteq> js ''tan''" "js ''cos'' \<noteq> js ''asin''" "js ''cos'' \<noteq> js ''acos''"
  "js ''cos'' \<noteq> js ''atan''" "js ''tan'' \<noteq> js ''asin''" "js ''tan'' \<noteq> js ''acos''"
  "js ''tan'' \<noteq> js ''atan''" "js ''asin'' \<noteq> js ''acos''" "js ''asin'' \<noteq> js ''atan''"
  "js ''acos'' \<noteq> js ''atan''"
  by (simp_all add: js_def)

lemma degree_scope_calls:
  "scope_call (angle_scope Deg) (js ''sin'') native x = Math_sin (degreesToRadians x)"
  "scope_call (angle_scope Deg) (js ''cos'') native x = Math_cos (degreesToRadians x)"
  "scope_call (angle_scope Deg) (js ''tan'') native x = Math_tan (degreesToRadians x)"
  "scope_call (angle_scope Deg) (js ''asin'') native x = radiansToDegrees (Math_asin x)"
  "scope_call (angle_scope Deg) (js ''acos'') native x = radiansToDegrees (Math_acos x)"
  "scope_call (angle_scope Deg) (js ''atan'') native x = radiansToDegrees (Math_atan x)"
  using js_names_distinct
  by (simp_all add: scope_call_def angle_scope_def del: map_of_eq_Some_iff) 

lemma radian_scope_call: "scope_call (angle_scope Rad) name native x = native x"
  by (simp add: scope_call_def angle_scope_def)

lemma conversions:
  "degreesToRadians (Fin r) = Fin (r * pi / 180)"
  "radiansToDegrees (Fin r) = Fin (r * 180 / pi)"
  by (simp_all add: degreesToRadians_def radiansToDegrees_def)

lemma trig_values:
  "Math_sin (degreesToRadians (Fin 90)) = Fin 1"
  "Math_sin (Fin (pi / 2)) = Fin 1"
  "radiansToDegrees (Math_asin (Fin 1)) = Fin 90"
  by (simp_all add: conversions)

lemma evaluate_number:
  assumes "\<not> (\<forall>c\<in>set e. is_space c)"
    and "math_evaluate h (preprocessExpression e) (angle_scope u) = Inr (MNumber v)"
  shows "evaluate h e u = Success (NumberValue v) (formatNumber h v)"
proof -
  have "trim e \<noteq> []"
    using assms(1) by (simp only: trim_empty_iff not_False_eq_True)
  then show ?thesis
    using assms(2) by (simp add: evaluate_def transformForAngleUnit_def)
qed

lemma example_texts:
  "preprocessExpression (js ''sin(90)'') = js ''sin(90)''"
  "preprocessExpression (js ''sin(pi/2)'') = js ''sin(pi/2)''"
  "preprocessExpression (js ''asin(1)'') = js ''asin(1)''"
  "\<not> (\<forall>c\<in>set (js ''sin(90)''). is_space c)"
  "\<not> (\<forall>c\<in>set (js ''sin(pi/2)''). is_space c)"
  "\<not> (\<forall>c\<in>set (js ''asin(1)''). is_space c)"
  by (simp_all add: eval_defs)

text \<open>
  Claim C2.  In degree mode \<open>evaluate\<close> passes a scope to the evaluator in which \<open>sin\<close>,
  \<open>cos\<close> and \<open>tan\<close> convert their argument from degrees to radians before the standard
  function is applied, and \<open>asin\<close>, \<open>acos\<close> and \<open>atan\<close> convert the standard function's
  result back to degrees, with \<open>degreesToRadians x = x \<cdot> \<pi> / 180\<close> and
  \<open>radiansToDegrees x = x \<cdot> 180 / \<pi>\<close>.  In radian mode the scope is empty, so a call
  resolves to the native function.  Hence, for an evaluator that resolves a call through
  its scope, \<open>sin(90)\<close> in degrees is 1, \<open>sin(pi/2)\<close> in radians is 1 and \<open>asin(1)\<close> in
  degrees is 90 (exactly, on the reals).
\<close>

theorem angle_unit_overrides:
  "angle_scope Rad = []
   \<and> map fst (angle_scope Deg)
       = [js ''sin'', js ''cos'', js ''tan'', js ''asin'', js ''acos'', js ''atan'']
   \<and> scope_call (angle_scope Deg) (js ''sin'') native x = Math_sin (degreesToRadians x)
   \<and> scope_call (angle_scope Deg) (js ''cos'') native x = Math_cos (degreesToRadians x)
   \<and> scope_call (angle_scope Deg) (js ''tan'') native x = Math_tan (degreesToRadians x)
   \<and> scope_call (angle_scope Deg) (js ''asin'') native x = radiansToDegrees (Math_asin x)
   \<and> scope_call (angle_scope Deg) (js ''acos'') native x = radiansToDegrees (Math_acos x)
   \<and> scope_call (angle_scope Deg) (js ''atan'') native x = radiansToDegrees (Math_atan x)
   \<and> scope_call (angle_scope Rad) name native x = native x
   \<and> degreesToRadians (Fin r) = Fin (r * pi / 180)
   \<and> radiansToDegrees (Fin r) = Fin (r * 180 / pi)
   \<and> (\<not> (\<forall>c\<in>set e. is_space c)
        \<and> math_evaluate h (preprocessExpression e) (angle_scope u) = Inr (MNumber v) \<longrightarrow>
        evaluate h e u = Success (NumberValue v) (formatNumber h v))
   \<and> (resolves_call h (js ''sin(90)'') (js ''sin'') Math_sin (Fin 90) \<longrightarrow>
        evaluate h (js ''sin(90)'') Deg = Success (NumberValue (Fin 1)) (formatNumber h (Fin 1)))
   \<and> (resolves_call h (js ''sin(pi/2)'') (js ''sin'') Math_sin (Fin (pi / 2)) \<longrightarrow>
        evaluate h (js ''sin(pi/2)'') Rad = Success (NumberValue (Fin 1)) (formatNumber h (Fin 1)))
   \<and> (resolves_call h (js ''asin(1)'') (js ''asin'') Math_asin (Fin 1) \<longrightarrow>
        evaluate h (js ''asin(1)'') Deg = Success (NumberValue (Fin 90)) (formatNumber h (Fin 90)))"
proof (intro conjI impI)
  show "angle_scope Rad = []"
    by (simp add: angle_scope_def)
  show "map fst (angle_scope Deg)
       = [js ''sin'', js ''cos'', js ''tan'', js ''asin'', js ''acos'', js ''atan'']"
    by (simp add: angle_scope_def)
  show "degreesToRadians (Fin r) = Fin (r * pi / 180)"
    and "radiansToDegrees (Fin r) = Fin (r * 180 / pi)"
    by (fact conversions)+
  show "scope_call (angle_scope Rad) name native x = native x"
    by (fact radian_scope_call)
next
  assume "\<not> (\<forall>c\<in>set e. is_space c)
        \<and> math_evaluate h (preprocessExpression e) (angle_scope u) = Inr (MNumber v)"
  then show "evaluate h e u = Success (NumberValue v) (formatNumber h v)"
    using evaluate_number by blast
next
  assume "resolves_call h (js ''sin(90)'') (js ''sin'') Math_sin (Fin 90)"
  then have "math_evaluate h (preprocessExpression (js ''sin(90)'')) (angle_scope Deg)
      = Inr (MNumber (Fin 1))"
    by (simp only: resolves_call_def example_texts degree_scope_calls trig_values)
  then show "evaluate h (js ''sin(90)'') Deg = Success (NumberValue (Fin 1)) (formatNumber h (Fin 1))"
    using evaluate_number example_texts(4) by blast
next
  assume "resolves_call h (js ''sin(pi/2)'') (js ''sin'') Math_sin (Fin (pi / 2))"
  then have "math_evaluate h (preprocessExpression (js ''sin(pi/2)'')) (angle_scope Rad)
      = Inr (MNumber (Fin 1))"
    by (simp only: resolves_call_def example_texts radian_scope_call trig_values)
  then show "evaluate h (js ''sin(pi/2)'') Rad = Success (NumberValue (Fin 1)) (formatNumber h (Fin 1))"
    using evaluate_number example_texts(5) by blast
next
  assume "resolves_call h (js ''asin(1)'') (js ''asin'') Math_asin (Fin 1)"
  then have "math_evaluate h (preprocessExpression (js ''asin(1)'')) (angle_scope Deg)
      = Inr (MNumber (Fin 90))"
    by (simp only: resolves_call_def example_texts degree_scope_calls trig_values)
  then show "evaluate h (js ''asin(1)'') Deg = Success (NumberValue (Fin 90)) (formatNumber h (Fin 90))"
    using evaluate_number example_texts(6) by blast
qed (fact degree_scope_calls)+

theorem angle_unit_overrides_witness:
  "resolves_call sample_host (js ''sin(90)'') (js ''sin'') Math_sin (Fin 90)
   \<and> resolves_call sample_host (js ''sin(pi/2)'') (js ''sin'') Math_sin (Fin (pi / 2))
   \<and> resolves_call sample_host (js ''asin(1)'') (js ''asin'') Math_asin (Fin 1)
   \<and> evaluate sample_host (js ''sin(90)'') Deg = Success (NumberValue (Fin 1)) (js ''1'')
   \<and> evaluate sample_host (js ''sin(pi/2)'') Rad = Success (NumberValue (Fin 1)) (js ''1'')
   \<and> evaluate sample_host (js ''asin(1)'') Deg = Success (NumberValue (Fin 90)) (js ''90'')"
proof -
  have neq: "js ''sin(pi/2)'' \<noteq> js ''sin(90)''" "js ''asin(1)'' \<noteq> js ''sin(90)''"
    "js ''asin(1)'' \<noteq> js ''sin(pi/2)''"
    by (simp_all add: js_def)
  have r: "resolves_call sample_host (js ''sin(90)'') (js ''sin'') Math_sin (Fin 90)"
    "resolves_call sample_host (js ''sin(pi/2)'') (js ''sin'') Math_sin (Fin (pi / 2))"
    "resolves_call sample_host (js ''asin(1)'') (js ''asin'') Math_asin (Fin 1)"
    by (simp_all add: resolves_call_def sample_host_fields sample_evaluate_def neq)
  have f: "formatNumber sample_host (Fin 1) = js ''1''"
    "formatNumber sample_host (Fin 90) = js ''90''"
    by (simp_all add: formatNumber_def sample_host_fields sample_toString_def
        sample_toPrecision_def sample_Number_def DISPLAY_PRECISION_def)
      (simp_all add: js_def)
  have t: "(resolves_call sample_host (js ''sin(90)'') (js ''sin'') Math_sin (Fin 90) \<longrightarrow>
        evaluate sample_host (js ''sin(90)'') Deg
          = Success (NumberValue (Fin 1)) (formatNumber sample_host (Fin 1)))
     \<and> (resolves_call sample_host (js ''sin(pi/2)'') (js ''sin'') Math_sin (Fin (pi / 2)) \<longrightarrow>
        evaluate sample_host (js ''sin(pi/2)'') Rad
          = Success (NumberValue (Fin 1)) (formatNumber sample_host (Fin 1)))
     \<and> (resolves_call sample_host (js ''asin(1)'') (js ''asin'') Math_asin (Fin 1) \<longrightarrow>
        evaluate sample_host (js ''asin(1)'') Deg
          = Success (NumberValue (Fin 90)) (formatNumber sample_host (Fin 90)))"
    by (intro conjI)
      (rule angle_unit_overrides [where h = sample_host, THEN conjunct2, THEN conjunct2, THEN conjunct2, THEN conjunct2, THEN conjunct2, THEN conjunct2, THEN conjunct2, THEN conjunct2, THEN conjunct2, THEN conjunct2, THEN conjunct2, THEN conjunct2, THEN conjunct1],
       rule angle_unit_overrides [where h = sample_host, THEN conjunct2, THEN conjunct2, THEN conjunct2, THEN conjunct2, THEN conjunct2, THEN conjunct2, THEN conjunct2, THEN conjunct2, THEN conjunct2, THEN conjunct2, THEN conjunct2, THEN conjunct2, THEN conjunct2, THEN conjunct1],
       rule angle_unit_overrides [where h = sample_host, THEN conjunct2, THEN conjunct2, THEN conjunct2, THEN conjunct2, THEN conjunct2, THEN conjunct2, THEN conjunct2, THEN conjunct2, THEN conjunct2, THEN conjunct2, THEN conjunct2, THEN conjunct2, THEN conjunct2, THEN conjunct2])
  show ?thesis
    using t r by (simp only: f simp_thms)
qed

end
